theory Spec2Isabelle
  imports Main "HOL-Library.Sublist" "HOL-Library.Multiset"
begin

section \<open>Values of the chat export\<close>

text \<open>
  The chat export is a JSON document. \<open>json.load\<close> turns it into Python values, which
  are modelled by the datatype below (numbers are integers; floats are left out). A
  message is a JSON object, kept as an association list read with \<open>map_of\<close>. A
  \<open>char\<close> stands for one code point of a Python \<open>str\<close>: a \<open>char\<close> under 0x80
  is the ASCII character of that code, and what a \<open>char\<close> from 0x80 stands for is left
  to the tables of the environment; the concrete environment below reads these codes as
  the Cyrillic code points U+0400 to U+047F.
\<close>

datatype json =
  JNull
| JBool bool
| JInt int
| JStr string
| JList "json list"
| JDict "(string \<times> json) list"

type_synonym message = "(string \<times> json) list"

datatype py_error =
  KeyError
| ValueError
| TypeError
| AttributeError
| IndexError
| OverflowError
| FileReadError

text \<open>What \<open>os.path.isfile\<close> and \<open>open(...).read()\<close> find at a path.\<close>

datatype fs_entry = NoFile | TextFile string | Unreadable

text \<open>
  Everything the programs take from outside the repository: the library's
  \<open>datetime.strptime(s, "%Y-%m-%dT%H:%M:%S")\<close> (\<open>None\<close> where it raises ValueError; a
  naive datetime is the number of seconds since 0001-01-01T00:00:00), the file system,
  the NLTK stopword set, the first parse of pymorphy3 (its grammemes and its normal
  form), the Unicode tables behind \<open>str.lower\<close>, the regex class \<open>\w\<close> and
  \<open>str.split\<close>, and \<open>str()\<close> of a value that is not a string.
\<close>

record env =
  strptime :: "string \<Rightarrow> int option"
  isfile_read :: "string \<Rightarrow> fs_entry"
  stopwords :: "string set"
  morph_parse :: "string \<Rightarrow> string list \<times> string"
  lower_char :: "char \<Rightarrow> char"
  is_word_char :: "char \<Rightarrow> bool"
  is_space_char :: "char \<Rightarrow> bool"
  py_str :: "json \<Rightarrow> string"

section \<open>Errors as values\<close>

fun mapM_err :: "('a \<Rightarrow> py_error + 'b) \<Rightarrow> 'a list \<Rightarrow> py_error + 'b list" where
  "mapM_err f [] = Inr []"
| "mapM_err f (x # xs) =
     (case f x of
        Inl e \<Rightarrow> Inl e
      | Inr y \<Rightarrow> (case mapM_err f xs of Inl e \<Rightarrow> Inl e | Inr ys \<Rightarrow> Inr (y # ys)))"

fun foldM_err :: "('s \<Rightarrow> 'a \<Rightarrow> py_error + 's) \<Rightarrow> 's \<Rightarrow> 'a list \<Rightarrow> py_error + 's" where
  "foldM_err f s [] = Inr s"
| "foldM_err f s (x # xs) =
     (case f s x of Inl e \<Rightarrow> Inl e | Inr s' \<Rightarrow> foldM_err f s' xs)"

section \<open>Dates\<close>

definition seconds_per_day :: int where
  "seconds_per_day = 86400"

text \<open>\<open>datetime.max\<close> is 9999-12-31T23:59:59, day 3652059 of the calendar.\<close>

definition datetime_max :: int where
  "datetime_max = 3652059 * 86400 - 1"

text \<open>\<open>dt + timedelta(days=n)\<close>: OverflowError beyond \<open>datetime.max\<close>.\<close>

definition add_days :: "int \<Rightarrow> int \<Rightarrow> py_error + int" where
  "add_days t n =
     (if t + n * seconds_per_day > datetime_max \<or> t + n * seconds_per_day < 0
      then Inl OverflowError else Inr (t + n * seconds_per_day))"

text \<open>\<open>dt.date()\<close>: the day number.\<close>

definition date_of :: "int \<Rightarrow> int" where
  "date_of t = t div seconds_per_day"

text \<open>\<open>parse_date\<close> of both programs: ValueError is raised again after logging.\<close>

definition parse_date :: "env \<Rightarrow> json \<Rightarrow> py_error + int" where
  "parse_date env v =
     (case v of
        JStr s \<Rightarrow> (case strptime env s of None \<Rightarrow> Inl ValueError | Some t \<Rightarrow> Inr t)
      | _ \<Rightarrow> Inl TypeError)"

text \<open>\<open>parse_date(x['date'])\<close>, the sort key and the loop's first statement.\<close>

definition message_date :: "env \<Rightarrow> message \<Rightarrow> py_error + int" where
  "message_date env m =
     (case map_of m ''date'' of None \<Rightarrow> Inl KeyError | Some v \<Rightarrow> parse_date env v)"

text \<open>
  \<open>sorted(messages, key=lambda x: parse_date(x['date']))\<close>: every key is computed first,
  in list order, and the sort is stable.
\<close>

definition sorted_messages :: "env \<Rightarrow> message list \<Rightarrow> py_error + message list" where
  "sorted_messages env msgs =
     (case mapM_err (message_date env) msgs of
        Inl e \<Rightarrow> Inl e
      | Inr ks \<Rightarrow> Inr (map snd (sort_key fst (zip ks msgs))))"

section \<open>Dictionaries\<close>

text \<open>
  The keys a sender can be as a dictionary key: Python compares \<open>True\<close> and \<open>1\<close> (and
  \<open>False\<close> and \<open>0\<close>) equal; lists and objects are unhashable.
\<close>

datatype key = KNone | KNum int | KStr string

fun hash_key :: "json \<Rightarrow> py_error + key" where
  "hash_key JNull = Inr KNone"
| "hash_key (JBool b) = Inr (KNum (if b then 1 else 0))"
| "hash_key (JInt n) = Inr (KNum n)"
| "hash_key (JStr s) = Inr (KStr s)"
| "hash_key (JList _) = Inl TypeError"
| "hash_key (JDict _) = Inl TypeError"

text \<open>
  \<open>d[k] = f(d[k])\<close> on a \<open>defaultdict\<close> whose factory gives \<open>dflt\<close>; a dictionary keeps
  its keys in insertion order.
\<close>

fun dd_upd :: "'k \<Rightarrow> 'v \<Rightarrow> ('v \<Rightarrow> 'v) \<Rightarrow> ('k \<times> 'v) list \<Rightarrow> ('k \<times> 'v) list" where
  "dd_upd k dflt f [] = [(k, f dflt)]"
| "dd_upd k dflt f ((k', v) # kvs) =
     (if k = k' then (k', f v) # kvs else (k', v) # dd_upd k dflt f kvs)"

record stats =
  messages :: nat
  words :: nat
  tokens :: "string list"

definition new_stats :: stats where
  "new_stats = \<lparr>messages = 0, words = 0, tokens = []\<rparr>"

type_synonym daily_counts = "(int \<times> (key \<times> stats) list) list"

text \<open>\<open>daily_counts[d][s]\<close> changed by \<open>f\<close>, both levels created on first use.\<close>

definition upd_stats :: "int \<Rightarrow> key \<Rightarrow> (stats \<Rightarrow> stats) \<Rightarrow> daily_counts \<Rightarrow> daily_counts" where
  "upd_stats d s f dc = dd_upd d [] (dd_upd s new_stats f) dc"

section \<open>Tokenizer\<close>

text \<open>The maximal runs of characters that satisfy \<open>P\<close>, left to right.\<close>

fun runs :: "(char \<Rightarrow> bool) \<Rightarrow> string \<Rightarrow> string \<Rightarrow> string list" where
  "runs P cur [] = (if cur = [] then [] else [rev cur])"
| "runs P cur (c # cs) =
     (if P c then runs P (c # cur) cs
      else (if cur = [] then [] else [rev cur]) @ runs P [] cs)"

text \<open>\<open>re.findall(r'\b\w+\b', text)\<close>.\<close>

definition findall_words :: "env \<Rightarrow> string \<Rightarrow> string list" where
  "findall_words env text = runs (is_word_char env) [] text"

definition content_pos :: "string list" where
  "content_pos = [''NOUN'', ''VERB'', ''ADJS'', ''ADJF'']"

fun lemmatize :: "env \<Rightarrow> string list \<Rightarrow> string list" where
  "lemmatize env [] = []"
| "lemmatize env (token # rest) =
     (if token \<in> stopwords env then lemmatize env rest
      else (let parsed = morph_parse env token in
            if list_ex (\<lambda>pos. pos \<in> set (fst parsed)) content_pos
            then snd parsed # lemmatize env rest
            else lemmatize env rest))"

text \<open>\<open>tokenize_and_lemmatize\<close> on a \<open>str\<close>.\<close>

definition tokenize_str :: "env \<Rightarrow> string \<Rightarrow> string list" where
  "tokenize_str env text = lemmatize env (findall_words env (map (lower_char env) text))"

text \<open>\<open>tokenize_and_lemmatize\<close> on any value: \<open>text.lower()\<close> exists on a \<open>str\<close> only.\<close>

definition tokenize_and_lemmatize :: "env \<Rightarrow> json \<Rightarrow> py_error + string list" where
  "tokenize_and_lemmatize env v =
     (case v of JStr s \<Rightarrow> Inr (tokenize_str env s) | _ \<Rightarrow> Inl AttributeError)"

section \<open>Transcripts of voice messages\<close>

text \<open>\<open>s.replace(old, new)\<close>: every occurrence, left to right, without overlap.\<close>

fun py_replace :: "string \<Rightarrow> string \<Rightarrow> string \<Rightarrow> string" where
  "py_replace [] new s = new @ concat (map (\<lambda>c. c # new) s)"
| "py_replace (a # as) new [] = []"
| "py_replace (a # as) new (c # cs) =
     (if a = c \<and> prefix as cs
      then new @ py_replace (a # as) new (drop (length as) cs)
      else c # py_replace (a # as) new cs)"

definition txt_path :: "string \<Rightarrow> string" where
  "txt_path voice_path =
     py_replace ''.ogg'' ''.txt'' (py_replace ''voice_messages'' ''voice_messages_txt'' voice_path)"

text \<open>
  \<open>ChatAnalyzer.process_voice_message\<close>: every exception inside is caught and gives the
  empty list (a reference that is not a string has no \<open>replace\<close>).
\<close>

definition process_voice_message :: "env \<Rightarrow> json \<Rightarrow> string list" where
  "process_voice_message env voice_path =
     (case voice_path of
        JStr p \<Rightarrow>
          (case isfile_read env (txt_path p) of
             NoFile \<Rightarrow> []
           | TextFile content \<Rightarrow> tokenize_str env content
           | Unreadable \<Rightarrow> [])
      | _ \<Rightarrow> [])"

section \<open>ChatAnalyzer.analyze\_chat\<close>

definition join_sp :: "string list \<Rightarrow> string" where
  "join_sp xs = (case xs of [] \<Rightarrow> [] | y # ys \<Rightarrow> y @ concat (map (\<lambda>z. CHR '' '' # z) ys))"

text \<open>\<open>item['text'] if isinstance(item, dict) else str(item)\<close>.\<close>

fun segment :: "env \<Rightarrow> json \<Rightarrow> py_error + json" where
  "segment env (JDict d) = (case map_of d ''text'' of None \<Rightarrow> Inl KeyError | Some v \<Rightarrow> Inr v)"
| "segment env (JStr s) = Inr (JStr s)"
| "segment env v = Inr (JStr (py_str env v))"

text \<open>\<open>' '.join\<close> wants strings.\<close>

fun the_str :: "json \<Rightarrow> py_error + string" where
  "the_str (JStr s) = Inr s"
| "the_str _ = Inl TypeError"

definition message_text :: "env \<Rightarrow> message \<Rightarrow> py_error + json" where
  "message_text env m =
     (case (case map_of m ''text'' of None \<Rightarrow> JStr [] | Some v \<Rightarrow> v) of
        JList items \<Rightarrow>
          (case mapM_err (segment env) items of
             Inl e \<Rightarrow> Inl e
           | Inr segs \<Rightarrow>
               (case mapM_err the_str segs of
                  Inl e \<Rightarrow> Inl e
                | Inr strs \<Rightarrow> Inr (JStr (join_sp strs))))
      | v \<Rightarrow> Inr v)"

definition message_tokens :: "env \<Rightarrow> message \<Rightarrow> py_error + string list" where
  "message_tokens env m =
     (case message_text env m of Inl e \<Rightarrow> Inl e | Inr v \<Rightarrow> tokenize_and_lemmatize env v)"

definition sender_of :: "message \<Rightarrow> json" where
  "sender_of m = (case map_of m ''from'' of None \<Rightarrow> JStr ''Unknown'' | Some v \<Rightarrow> v)"

definition is_voice :: "message \<Rightarrow> bool" where
  "is_voice m = (map_of m ''media_type'' = Some (JStr ''voice_message''))"

type_synonym voice_task = "int \<times> key \<times> json"

text \<open>One round of the first loop of \<open>analyze_chat\<close>.\<close>

definition ingest :: "env \<Rightarrow> daily_counts \<times> voice_task list \<Rightarrow> message \<Rightarrow>
    py_error + daily_counts \<times> voice_task list" where
  "ingest env st m =
     (case message_date env m of
        Inl e \<Rightarrow> Inl e
      | Inr t \<Rightarrow>
          (case hash_key (sender_of m) of
             Inl e \<Rightarrow> Inl e
           | Inr sender \<Rightarrow>
               (let d = date_of t;
                    dc = upd_stats d sender (\<lambda>r. r\<lparr>messages := messages r + 1\<rparr>) (fst st)
                in if is_voice m
                   then (case map_of m ''file'' of
                           None \<Rightarrow> Inl KeyError
                         | Some f \<Rightarrow> Inr (dc, snd st @ [(d, sender, f)]))
                   else (case message_tokens env m of
                           Inl e \<Rightarrow> Inl e
                         | Inr toks \<Rightarrow>
                             Inr (upd_stats d sender (\<lambda>r. r\<lparr>tokens := tokens r @ toks\<rparr>) dc,
                                  snd st)))))"

text \<open>One round of the second loop: the task is awaited, then merged.\<close>

definition merge_voice :: "env \<Rightarrow> voice_task \<Rightarrow> daily_counts \<times> nat \<Rightarrow> daily_counts \<times> nat" where
  "merge_voice env task st =
     (case task of (d, sender, f) \<Rightarrow>
        (let toks = process_voice_message env f
         in if toks \<noteq> []
            then (upd_stats d sender (\<lambda>r. r\<lparr>tokens := tokens r @ toks\<rparr>) (fst st), snd st)
            else (fst st, snd st + 1)))"

definition analyze_chat :: "env \<Rightarrow> message list \<Rightarrow> py_error + daily_counts \<times> nat" where
  "analyze_chat env msgs =
     (case sorted_messages env msgs of
        Inl e \<Rightarrow> Inl e
      | Inr sorted_msgs \<Rightarrow>
          (case foldM_err (ingest env) ([], []) sorted_msgs of
             Inl e \<Rightarrow> Inl e
           | Inr (dc, voice_tasks) \<Rightarrow> Inr (fold (merge_voice env) voice_tasks (dc, 0))))"

section \<open>Top words per day (main)\<close>

text \<open>\<open>collections.Counter(xs)\<close>: the counts, keyed in order of first occurrence.\<close>

definition Counter :: "'a list \<Rightarrow> ('a \<times> nat) list" where
  "Counter xs = fold (\<lambda>x c. dd_upd x 0 Suc c) xs []"

text \<open>
  \<open>Counter.most_common(n)\<close> is \<open>heapq.nlargest(n, items, key=itemgetter(1))\<close>, which the
  library documents as \<open>sorted(items, key=itemgetter(1), reverse=True)[:n]\<close>: a stable
  sort by descending count.
\<close>

definition most_common :: "nat \<Rightarrow> ('a \<times> nat) list \<Rightarrow> ('a \<times> nat) list" where
  "most_common n c = take n (sort_key (\<lambda>p. - int (snd p)) c)"

text \<open>The ranking of \<open>main\<close>, \<open>Counter(all_tokens).most_common(5)\<close>, for any length.\<close>

definition top_k :: "nat \<Rightarrow> 'a list \<Rightarrow> ('a \<times> nat) list" where
  "top_k n all_tokens = most_common n (Counter all_tokens)"

definition all_tokens_of :: "(key \<times> stats) list \<Rightarrow> string list" where
  "all_tokens_of senders = concat (map (\<lambda>sender_data. tokens (snd sender_data)) senders)"

definition top_words_per_day :: "daily_counts \<Rightarrow> (int \<times> (string \<times> nat) list) list" where
  "top_words_per_day dc =
     map (\<lambda>d. (d, top_k 5 (all_tokens_of (case map_of dc d of None \<Rightarrow> [] | Some ss \<Rightarrow> ss))))
       (sort (map fst dc))"

text \<open>The position of the first occurrence of \<open>x\<close> in \<open>xs\<close>.\<close>

definition first_pos :: "'a \<Rightarrow> 'a list \<Rightarrow> nat" where
  "first_pos x xs = length (takeWhile (\<lambda>y. y \<noteq> x) xs)"

section \<open>The period script (main.py)\<close>

definition days_per_period :: int where
  "days_per_period = 30"

text \<open>The first loop: \<open>message_count[sender] += 1\<close>, or \<open>not_message += 1\<close> on KeyError.\<close>

definition count_sender :: "(key \<times> nat) list \<times> nat \<Rightarrow> message \<Rightarrow> py_error + (key \<times> nat) list \<times> nat" where
  "count_sender st message =
     (case map_of message ''from'' of
        None \<Rightarrow> Inr (fst st, snd st + 1)
      | Some v \<Rightarrow>
          (case hash_key v of
             Inl e \<Rightarrow> Inl e
           | Inr sender \<Rightarrow> Inr (dd_upd sender 0 Suc (fst st), snd st)))"

text \<open>\<open>item['text'] if isinstance(item, dict) else item\<close>.\<close>

fun word_item :: "json \<Rightarrow> py_error + json" where
  "word_item (JDict d) = (case map_of d ''text'' of None \<Rightarrow> Inl KeyError | Some v \<Rightarrow> Inr v)"
| "word_item v = Inr v"

text \<open>\<open>count_words\<close>: \<open>len(text.split())\<close>, the number of runs without whitespace.\<close>

definition count_words :: "env \<Rightarrow> json \<Rightarrow> py_error + nat" where
  "count_words env text =
     (case (case text of
              JList items \<Rightarrow>
                (case mapM_err word_item items of
                   Inl e \<Rightarrow> Inl e
                 | Inr segs \<Rightarrow>
                     (case mapM_err the_str segs of
                        Inl e \<Rightarrow> Inl e
                      | Inr strs \<Rightarrow> Inr (JStr (join_sp strs))))
            | v \<Rightarrow> Inr v) of
        Inl e \<Rightarrow> Inl e
      | Inr (JStr s) \<Rightarrow> Inr (length (runs (\<lambda>c. \<not> is_space_char env c) [] s))
      | Inr _ \<Rightarrow> Inl AttributeError)"

record period_stats =
  p_messages :: nat
  p_words :: nat

definition new_period_stats :: period_stats where
  "new_period_stats = \<lparr>p_messages = 0, p_words = 0\<rparr>"

type_synonym period_count = "(key \<times> period_stats) list"

definition add_words :: "key \<Rightarrow> nat \<Rightarrow> period_count \<Rightarrow> period_count" where
  "add_words sender n pc = dd_upd sender new_period_stats (\<lambda>r. r\<lparr>p_words := p_words r + n\<rparr>) pc"

text \<open>
  The body of \<open>for msg in current_period\<close>: a KeyError anywhere inside is passed over,
  any other exception ends the script.
\<close>

definition count_message :: "env \<Rightarrow> period_count \<times> nat \<Rightarrow> message \<Rightarrow> py_error + period_count \<times> nat" where
  "count_message env st msg =
     (case map_of msg ''from'' of
        None \<Rightarrow> Inr st
      | Some v \<Rightarrow>
          (case hash_key v of
             Inl e \<Rightarrow> Inl e
           | Inr sender \<Rightarrow>
               (let pc = dd_upd sender new_period_stats
                           (\<lambda>r. r\<lparr>p_messages := p_messages r + 1\<rparr>) (fst st)
                in if is_voice msg
                   then (case map_of msg ''file'' of
                           None \<Rightarrow> Inr (pc, snd st)
                         | Some (JStr p) \<Rightarrow>
                             (case isfile_read env (txt_path p) of
                                NoFile \<Rightarrow> Inr (pc, snd st + 1)
                              | TextFile voice_content \<Rightarrow>
                                  (case count_words env (JStr voice_content) of
                                     Inl e \<Rightarrow> (if e = KeyError then Inr (pc, snd st) else Inl e)
                                   | Inr n \<Rightarrow> Inr (add_words sender n pc, snd st))
                              | Unreadable \<Rightarrow> Inl FileReadError)
                         | Some _ \<Rightarrow> Inl AttributeError)
                   else (case map_of msg ''text'' of
                           None \<Rightarrow> Inr (pc, snd st)
                         | Some text \<Rightarrow>
                             (case count_words env text of
                                Inl e \<Rightarrow> (if e = KeyError then Inr (pc, snd st) else Inl e)
                              | Inr n \<Rightarrow> Inr (add_words sender n pc, snd st))))))"

record loop_state =
  periods :: "message list list"
  period_counts :: "period_count list"
  current_period :: "message list"
  current_period_end :: int
  unrecognized_voice_count :: nat

text \<open>The body of \<open>for message in messages_sorted\<close>.\<close>

definition period_step :: "env \<Rightarrow> loop_state \<Rightarrow> message \<Rightarrow> py_error + loop_state" where
  "period_step env st message =
     (case message_date env message of
        Inl e \<Rightarrow> Inl e
      | Inr t \<Rightarrow>
          (if t < current_period_end st
           then Inr (st\<lparr>current_period := current_period st @ [message]\<rparr>)
           else (case foldM_err (count_message env) ([], unrecognized_voice_count st)
                        (current_period st) of
                   Inl e \<Rightarrow> Inl e
                 | Inr (period_count, unrecognized) \<Rightarrow>
                     (case add_days (current_period_end st) days_per_period of
                        Inl e \<Rightarrow> Inl e
                      | Inr period_end \<Rightarrow>
                          Inr \<lparr>periods = periods st @ [current_period st],
                               period_counts = period_counts st @ [period_count],
                               current_period = [message],
                               current_period_end = period_end,
                               unrecognized_voice_count = unrecognized\<rparr>))))"

record script_result =
  message_count :: "(key \<times> nat) list"
  not_message :: nat
  final :: loop_state
  period_labels :: "int list"

text \<open>The script from its first loop to \<open>period_labels\<close>; the plot is left out.\<close>

definition run_script :: "env \<Rightarrow> message list \<Rightarrow> py_error + script_result" where
  "run_script env msgs =
     (case foldM_err count_sender ([], 0) msgs of
        Inl e \<Rightarrow> Inl e
      | Inr (mc, nm) \<Rightarrow>
          (case sorted_messages env msgs of
             Inl e \<Rightarrow> Inl e
           | Inr messages_sorted \<Rightarrow>
               (case (case messages_sorted of
                        [] \<Rightarrow> Inl IndexError
                      | m # _ \<Rightarrow> message_date env m) of
                  Inl e \<Rightarrow> Inl e
                | Inr start_date \<Rightarrow>
                    (case add_days start_date days_per_period of
                       Inl e \<Rightarrow> Inl e
                     | Inr period_end \<Rightarrow>
                         (case foldM_err (period_step env)
                                 \<lparr>periods = [], period_counts = [], current_period = [],
                                  current_period_end = period_end,
                                  unrecognized_voice_count = 0\<rparr> messages_sorted of
                            Inl e \<Rightarrow> Inl e
                          | Inr st \<Rightarrow>
                              (case mapM_err (\<lambda>i. add_days start_date (days_per_period * int i))
                                      [0 ..< length (period_counts st)] of
                                 Inl e \<Rightarrow> Inl e
                               | Inr labels \<Rightarrow>
                                   Inr \<lparr>message_count = mc, not_message = nm, final = st,
                                        period_labels = labels\<rparr>))))))"

section \<open>The specification's own wording, for comparison\<close>

text \<open>
  The rolling cursor as the specification words it: while \<open>t >= currentEnd\<close>, advance
  \<open>currentKey\<close> by one and \<open>currentEnd\<close> by the width.
\<close>

function spec_advance :: "int \<Rightarrow> int \<Rightarrow> nat \<times> int \<Rightarrow> nat \<times> int" where
  "spec_advance width t (k, e) =
     (if 0 < width \<and> e \<le> t then spec_advance width t (k + 1, e + width) else (k, e))"
  by pat_completeness auto
termination
  by (relation "measure (\<lambda>(width, t, k, e). nat (t - e + 1))") auto

text \<open>
  The path rule as the specification words it: the directory segment \<open>voice_messages\<close>
  becomes \<open>voice_messages_txt\<close>, and a trailing extension \<open>.ogg\<close> becomes \<open>.txt\<close>.
\<close>

fun split_on :: "char \<Rightarrow> string \<Rightarrow> string \<Rightarrow> string list" where
  "split_on sep cur [] = [rev cur]"
| "split_on sep cur (c # cs) =
     (if c = sep then rev cur # split_on sep [] cs else split_on sep (c # cur) cs)"

definition join_slash :: "string list \<Rightarrow> string" where
  "join_slash xs = (case xs of [] \<Rightarrow> [] | y # ys \<Rightarrow> y @ concat (map (\<lambda>z. CHR ''/'' # z) ys))"

definition spec_txt_path :: "string \<Rightarrow> string" where
  "spec_txt_path ref =
     (let q = join_slash (map (\<lambda>seg. if seg = ''voice_messages'' then ''voice_messages_txt'' else seg)
                (split_on CHR ''/'' [] ref))
      in if suffix ''.ogg'' q then take (length q - 4) q @ ''.txt'' else q)"

section \<open>The converter (ogg\_to\_wav\_to\_txt.py)\<close>

text \<open>
  \<open>os.path.splitext(name)[0]\<close> for a file name as \<open>os.listdir\<close> gives it (no directory
  part): the name up to its last dot, or the whole name when it has no dot or nothing but
  dots before the last one.
\<close>

definition splitext_root :: "string \<Rightarrow> string" where
  "splitext_root name =
     (if CHR ''.'' \<in> set name
      then (let root = rev (tl (dropWhile (\<lambda>c. c \<noteq> CHR ''.'') (rev name)))
            in if list_ex (\<lambda>c. c \<noteq> CHR ''.'') root then root else name)
      else name)"

text \<open>The first loop: \<open>os.path.splitext(filename)[0] + '.wav'\<close> for a name ending in \<open>.ogg\<close>.\<close>

definition wav_file_name :: "string \<Rightarrow> string option" where
  "wav_file_name filename =
     (if suffix ''.ogg'' filename then Some (splitext_root filename @ ''.wav'') else None)"

text \<open>The second loop: \<open>os.path.splitext(filename)[0] + '.txt'\<close> for a name ending in \<open>.wav\<close>.\<close>

definition text_file_name :: "string \<Rightarrow> string option" where
  "text_file_name filename =
     (if suffix ''.wav'' filename then Some (splitext_root filename @ ''.txt'') else None)"

text \<open>
  The name under which the converter writes the transcript of a voice file into
  \<open>voice_messages_txt\<close>, when it writes one.
\<close>

definition transcript_name :: "string \<Rightarrow> string option" where
  "transcript_name ogg_name =
     (case wav_file_name ogg_name of None \<Rightarrow> None | Some wav_name \<Rightarrow> text_file_name wav_name)"

section \<open>A concrete environment\<close>

text \<open>
  The tables of Python for the alphabet of a Russian chat: a \<open>char\<close> under 0x80 is the
  ASCII character of that code, a \<open>char\<close> \<open>c\<close> from 0x80 is the code point
  U+0400 + (\<open>c\<close> - 0x80), so that 0x80 to 0xFF are U+0400 to U+047F, all of them letters.
\<close>

definition code_of :: "char \<Rightarrow> nat" where
  "code_of c = of_char c"

text \<open>
  \<open>str.lower\<close>: A to Z; U+0400 to U+040F become U+0450 to U+045F; U+0410 to U+042F
  become U+0430 to U+044F; from U+0460 on every even code point is the capital of the
  next one.
\<close>

definition demo_lower :: "char \<Rightarrow> char" where
  "demo_lower c =
     (let n = code_of c
      in if 65 \<le> n \<and> n \<le> 90 then char_of (n + 32)
         else if 128 \<le> n \<and> n < 144 then char_of (n + 80)
         else if 144 \<le> n \<and> n < 176 then char_of (n + 32)
         else if 224 \<le> n \<and> even n then char_of (n + 1)
         else c)"

text \<open>The class \<open>\w\<close>: digits, letters and the underscore.\<close>

definition demo_word :: "char \<Rightarrow> bool" where
  "demo_word c =
     (let n = code_of c
      in (48 \<le> n \<and> n \<le> 57) \<or> (65 \<le> n \<and> n \<le> 90) \<or> n = 95 \<or> (97 \<le> n \<and> n \<le> 122)
         \<or> 128 \<le> n)"

text \<open>The whitespace of \<open>str.split\<close>: 0x09 to 0x0D, 0x1C to 0x1F and the space.\<close>

definition demo_space :: "char \<Rightarrow> bool" where
  "demo_space c = (let n = code_of c in (9 \<le> n \<and> n \<le> 13) \<or> (28 \<le> n \<and> n \<le> 32))"

text \<open>\<open>str()\<close> of a value that is not a string is its \<open>repr\<close>.\<close>

function dec_digits :: "nat \<Rightarrow> string" where
  "dec_digits n =
     (if n < 10 then [char_of (48 + n)] else dec_digits (n div 10) @ [char_of (48 + n mod 10)])"
  by pat_completeness auto
termination
  by (relation "measure id") auto

definition int_repr :: "int \<Rightarrow> string" where
  "int_repr i = (if i < 0 then CHR ''-'' # dec_digits (nat (- i)) else dec_digits (nat i))"

definition hex_digit :: "nat \<Rightarrow> char" where
  "hex_digit n = (if n < 10 then char_of (48 + n) else char_of (87 + n))"

text \<open>
  One character inside the quotes of \<open>repr\<close> of a string: the quote and the backslash
  are escaped, tab, newline and return are written \<open>\t\<close>, \<open>\n\<close>, \<open>\r\<close>, any other
  control character as \<open>\x\<close> and two hexadecimal digits.
\<close>

definition repr_char :: "char \<Rightarrow> char \<Rightarrow> string" where
  "repr_char quote c =
     (let n = code_of c
      in if c = quote \<or> c = CHR 0x5C then [CHR 0x5C, c]
         else if n = 9 then [CHR 0x5C, CHR ''t'']
         else if n = 10 then [CHR 0x5C, CHR ''n'']
         else if n = 13 then [CHR 0x5C, CHR ''r'']
         else if n < 32 \<or> n = 127
              then [CHR 0x5C, CHR ''x'', hex_digit (n div 16), hex_digit (n mod 16)]
         else [c])"

text \<open>Single quotes, unless the string holds a single quote and no double quote.\<close>

definition str_repr :: "string \<Rightarrow> string" where
  "str_repr s =
     (let quote = (if CHR 0x27 \<in> set s \<and> CHR 0x22 \<notin> set s then CHR 0x22 else CHR 0x27)
      in quote # concat (map (repr_char quote) s) @ [quote])"

definition join_comma :: "string list \<Rightarrow> string" where
  "join_comma xs = (case xs of [] \<Rightarrow> [] | y # ys \<Rightarrow> y @ concat (map (\<lambda>z. '', '' @ z) ys))"

fun py_repr :: "json \<Rightarrow> string"
  and py_repr_items :: "json list \<Rightarrow> string list"
  and py_repr_pairs :: "(string \<times> json) list \<Rightarrow> string list" where
  "py_repr JNull = ''None''"
| "py_repr (JBool b) = (if b then ''True'' else ''False'')"
| "py_repr (JInt i) = int_repr i"
| "py_repr (JStr s) = str_repr s"
| "py_repr (JList xs) = ''['' @ join_comma (py_repr_items xs) @ '']''"
| "py_repr (JDict kvs) = ''{'' @ join_comma (py_repr_pairs kvs) @ ''}''"
| "py_repr_items [] = []"
| "py_repr_items (x # xs) = py_repr x # py_repr_items xs"
| "py_repr_pairs [] = []"
| "py_repr_pairs (kv # kvs) = (str_repr (fst kv) @ '': '' @ py_repr (snd kv)) # py_repr_pairs kvs"

text \<open>
  Two Russian words in this alphabet: \<open>privet\<close> (U+043F U+0440 U+0438 U+0432 U+0435
  U+0442, "hello") and \<open>mir\<close> (U+043C U+0438 U+0440, "world"); \<open>Privet_mir\<close> is the text
  of the scenario of the specification, with a capital first letter (U+041F).
\<close>

definition privet :: string where
  "privet = [CHR 0xBF, CHR 0xC0, CHR 0xB8, CHR 0xB2, CHR 0xB5, CHR 0xC2]"

definition mir :: string where
  "mir = [CHR 0xBC, CHR 0xB8, CHR 0xC0]"

definition Privet_mir :: string where
  "Privet_mir = [CHR 0x9F, CHR 0xC0, CHR 0xB8, CHR 0xB2, CHR 0xB5, CHR 0xC2, CHR '' '',
                 CHR 0xBC, CHR 0xB8, CHR 0xC0]"

definition ascii_letter :: "char \<Rightarrow> bool" where
  "ascii_letter c = (let n = code_of c in (65 \<le> n \<and> n \<le> 90) \<or> (97 \<le> n \<and> n \<le> 122))"

definition ascii_digit :: "char \<Rightarrow> bool" where
  "ascii_digit c = (let n = code_of c in 48 \<le> n \<and> n \<le> 57)"

text \<open>
  An excerpt of the dictionary of pymorphy3: \<open>privet\<close> and \<open>mir\<close> are nouns and their
  own normal forms; a token with a Latin letter and no Cyrillic one is tagged LATN (a
  Roman numeral apart, which is ROMN) and a token of digits NUMB; for every other token
  the excerpt says UNKN, where the dictionary itself would look the word up or guess.
\<close>

definition demo_morph :: "string \<Rightarrow> string list \<times> string" where
  "demo_morph w =
     (if w = privet \<or> w = mir then ([''NOUN'', ''inan'', ''masc'', ''sing'', ''nomn''], w)
      else if list_ex ascii_letter w \<and> list_all (\<lambda>c. code_of c < 128) w then ([''LATN''], w)
      else if w \<noteq> [] \<and> list_all ascii_digit w then ([''NUMB'', ''intg''], w)
      else ([''UNKN''], w))"

text \<open>
  Five timestamps as \<open>strptime\<close> reads them; three transcripts; the empty stopword set
  that the constructor falls back to when the NLTK list cannot be loaded (neither
  \<open>privet\<close> nor \<open>mir\<close> is in the list itself); and the tables above.
\<close>

definition demo_env :: env where
  "demo_env = \<lparr>
     strptime = map_of
       [(''2024-01-01T00:00:00'', 63839664000), (''2024-01-01T10:00:00'', 63839700000),
        (''2024-01-02T09:00:00'', 63839782800), (''2024-04-10T00:00:00'', 63848304000),
        (''2024-04-11T00:00:00'', 63848390400)],
     isfile_read = (\<lambda>p.
       case map_of [(''voice_messages_txt/1.txt'', Privet_mir),
                    (''voice_messages_txt/2.txt'', ''and the''),
                    (''voice_messages_txt/a.ogg.txt'', Privet_mir)] p of
         None \<Rightarrow> NoFile | Some content \<Rightarrow> TextFile content),
     stopwords = {},
     morph_parse = demo_morph,
     lower_char = demo_lower,
     is_word_char = demo_word,
     is_space_char = demo_space,
     py_str = py_repr \<rparr>"

section \<open>Concrete messages\<close>

definition msg_a :: message where
  "msg_a = [(''date'', JStr ''2024-01-01T10:00:00''), (''from'', JStr ''A''),
            (''text'', JStr ''Hello world'')]"

definition msg_privet :: message where
  "msg_privet = [(''date'', JStr ''2024-01-01T10:00:00''), (''from'', JStr ''A''),
                 (''text'', JStr Privet_mir)]"

definition msg_bad_date :: message where
  "msg_bad_date = [(''date'', JStr ''01.01.2024 10:00''), (''from'', JStr ''B''),
                   (''text'', JStr ''Hello'')]"

definition msg_number_text :: message where
  "msg_number_text = [(''date'', JStr ''2024-01-01T10:00:00''), (''from'', JStr ''A''), (''text'', JInt 5)]"

definition msg_no_text :: message where
  "msg_no_text = [(''date'', JStr ''2024-01-01T10:00:00''), (''from'', JStr ''A'')]"

definition msg_list_text :: message where
  "msg_list_text = [(''date'', JStr ''2024-01-01T10:00:00''), (''from'', JStr ''A''),
     (''text'', JList [JStr ''Hello'', JDict [(''type'', JStr ''bold'')]])]"

definition msg_day0 :: message where
  "msg_day0 = [(''date'', JStr ''2024-01-01T00:00:00''), (''from'', JStr ''A''),
               (''text'', JStr ''Hello world'')]"

definition msg_day100 :: message where
  "msg_day100 = [(''date'', JStr ''2024-04-10T00:00:00''), (''from'', JStr ''A''),
                 (''text'', JStr ''Hello'')]"

definition msg_day101 :: message where
  "msg_day101 = [(''date'', JStr ''2024-04-11T00:00:00''), (''from'', JStr ''B''),
                 (''text'', JStr ''world'')]"

section \<open>Reading the statistics\<close>

text \<open>\<open>daily_counts[d][s]['messages']\<close>, or 0 where there is no such record.\<close>

definition messages_at :: "daily_counts \<Rightarrow> int \<Rightarrow> key \<Rightarrow> nat" where
  "messages_at dc d s =
     (case map_of dc d of
        None \<Rightarrow> 0
      | Some ss \<Rightarrow> (case map_of ss s of None \<Rightarrow> 0 | Some r \<Rightarrow> messages r))"

text \<open>The sum of \<open>messages\<close> over all senders of the bucket \<open>d\<close>.\<close>

definition bucket_total :: "daily_counts \<Rightarrow> int \<Rightarrow> nat" where
  "bucket_total dc d =
     (case map_of dc d of None \<Rightarrow> 0 | Some ss \<Rightarrow> sum_list (map (\<lambda>p. messages (snd p)) ss))"

text \<open>Every date is one entry of \<open>daily_counts\<close>, every sender one record of its date.\<close>

definition one_record_each :: "daily_counts \<Rightarrow> bool" where
  "one_record_each dc =
     (distinct (map fst dc) \<and> list_all (\<lambda>p. distinct (map fst (snd p))) dc)"

text \<open>The bucket and the sender under which \<open>analyze_chat\<close> files a message.\<close>

definition attribution :: "env \<Rightarrow> message \<Rightarrow> (int \<times> key) option" where
  "attribution env m =
     (case message_date env m of
        Inl e \<Rightarrow> None
      | Inr t \<Rightarrow> (case hash_key (sender_of m) of Inl e \<Rightarrow> None | Inr s \<Rightarrow> Some (date_of t, s)))"

definition bucket_of :: "env \<Rightarrow> message \<Rightarrow> int option" where
  "bucket_of env m = (case message_date env m of Inl e \<Rightarrow> None | Inr t \<Rightarrow> Some (date_of t))"

text \<open>\<open>period_count[s]['messages']\<close>, or 0 where the sender has no entry.\<close>

definition p_messages_at :: "period_count \<Rightarrow> key \<Rightarrow> nat" where
  "p_messages_at pc s = (case map_of pc s of None \<Rightarrow> 0 | Some r \<Rightarrow> p_messages r)"

text \<open>The sender under which the period script counts a message: \<open>msg['from']\<close>.\<close>

definition from_key :: "message \<Rightarrow> key option" where
  "from_key m =
     (case map_of m ''from'' of
        None \<Rightarrow> None
      | Some v \<Rightarrow> (case hash_key v of Inl e \<Rightarrow> None | Inr s \<Rightarrow> Some s))"

definition msg_no_from :: message where
  "msg_no_from = [(''date'', JStr ''2024-01-01T00:00:00''), (''text'', JStr Privet_mir)]"

text \<open>
  The string that an element of a list-valued \<open>text\<close> contributes: a string itself, the
  string under \<open>text\<close> of an object, \<open>str()\<close> of anything else.
\<close>

definition segment_str :: "env \<Rightarrow> json \<Rightarrow> string \<Rightarrow> bool" where
  "segment_str env item s =
     (case item of
        JStr x \<Rightarrow> s = x
      | JDict d \<Rightarrow> map_of d ''text'' = Some (JStr s)
      | v \<Rightarrow> s = py_str env v)"

definition msg_mixed_list :: message where
  "msg_mixed_list = [(''date'', JStr ''2024-01-01T10:00:00''), (''from'', JStr ''A''),
     (''text'', JList [JStr ''Hello'', JDict [(''type'', JStr ''bold''), (''text'', JStr ''world'')],
                       JInt 5, JNull])]"

text \<open>A message with the field \<open>from\<close> filled in as \<open>"Unknown"\<close> where it is missing.\<close>

definition with_unknown :: "message \<Rightarrow> message" where
  "with_unknown m =
     (case map_of m ''from'' of None \<Rightarrow> (''from'', JStr ''Unknown'') # m | Some v \<Rightarrow> m)"

definition msg_voice_no_from :: message where
  "msg_voice_no_from = [(''date'', JStr ''2024-01-02T09:00:00''),
     (''media_type'', JStr ''voice_message''), (''file'', JStr ''voice_messages/1.ogg'')]"

text \<open>What \<open>analyze_chat\<close> returns as \<open>daily_counts\<close> for \<open>[msg_no_from, msg_a]\<close>.\<close>

definition counts_no_from :: daily_counts where
  "counts_no_from =
     [(738885,
       [(KStr ''Unknown'', \<lparr>messages = 1, words = 0, tokens = [privet, mir]\<rparr>),
        (KStr ''A'', \<lparr>messages = 1, words = 0, tokens = []\<rparr>)])]"

section \<open>General lemmas\<close>

lemmas model_defs = analyze_chat_def sorted_messages_def message_date_def parse_date_def ingest_def
  sender_of_def is_voice_def message_tokens_def message_text_def tokenize_and_lemmatize_def
  upd_stats_def new_stats_def date_of_def seconds_per_day_def tokenize_str_def findall_words_def
  content_pos_def merge_voice_def process_voice_message_def txt_path_def join_sp_def

lemmas demo_defs = demo_env_def demo_lower_def demo_word_def demo_space_def demo_morph_def
  code_of_def ascii_letter_def ascii_digit_def privet_def mir_def Privet_mir_def char_of_eq_iff

lemma mapM_err_fails: "x \<in> set xs \<Longrightarrow> isl (f x) \<Longrightarrow> isl (mapM_err f xs)"
  by (induction xs) (auto split: sum.splits)

lemma foldM_err_fails: "x \<in> set xs \<Longrightarrow> (\<And>s. isl (f s x)) \<Longrightarrow> isl (foldM_err f s xs)"
proof (induction xs arbitrary: s)
  case Nil
  then show ?case by simp
next
  case (Cons y ys)
  show ?case
  proof (cases "f s y")
    case (Inl e)
    then show ?thesis by simp
  next
    case (Inr s')
    from Cons.prems(2) [of s] Inr have "x \<noteq> y" by auto
    with Cons.prems(1) have "x \<in> set ys" by simp
    with Cons.IH Cons.prems(2) Inr show ?thesis by simp
  qed
qed

lemma mapM_err_length: "mapM_err f xs = Inr ys \<Longrightarrow> length ys = length xs"
  by (induction xs arbitrary: ys) (auto split: sum.splits)

lemma mset_sorted_messages:
  assumes "sorted_messages env msgs = Inr ss"
  shows "mset ss = mset msgs"
proof -
  from assms obtain ks where ks: "mapM_err (message_date env) msgs = Inr ks"
    and ss: "ss = map snd (sort_key fst (zip ks msgs))"
    by (auto simp: sorted_messages_def split: sum.splits)
  have "length ks = length msgs" using ks by (rule mapM_err_length)
  then have "map snd (zip ks msgs) = msgs" by simp
  moreover have "mset ss = mset (map snd (zip ks msgs))"
    unfolding ss by (simp only: mset_map mset_sort)
  ultimately show ?thesis by simp
qed

lemma set_sorted_messages: "sorted_messages env msgs = Inr ss \<Longrightarrow> set ss = set msgs"
  by (metis mset_sorted_messages set_mset_mset)

lemma bad_date_sorted:
  assumes "m \<in> set msgs" "map_of m ''date'' = Some (JStr s)" "strptime env s = None"
  shows "isl (sorted_messages env msgs)"
proof -
  have "isl (message_date env m)"
    using assms(2,3) by (simp add: message_date_def parse_date_def)
  with assms(1) have "isl (mapM_err (message_date env) msgs)" by (rule mapM_err_fails)
  then show ?thesis by (auto simp: sorted_messages_def split: sum.splits)
qed

lemma failing_message_aborts:
  assumes "m \<in> set msgs" "\<And>st. isl (ingest env st m)"
  shows "isl (analyze_chat env msgs)"
proof (cases "sorted_messages env msgs")
  case (Inl e)
  then show ?thesis by (simp add: analyze_chat_def)
next
  case (Inr ss)
  then have "m \<in> set ss" using assms(1) by (simp add: set_sorted_messages)
  then have "isl (foldM_err (ingest env) ([], []) ss)"
    using assms(2) by (rule foldM_err_fails)
  with Inr show ?thesis by (auto simp: analyze_chat_def split: sum.splits)
qed

lemma ingest_text_fails:
  assumes "\<not> is_voice m" "isl (message_tokens env m)"
  shows "isl (ingest env st m)"
  using assms by (auto simp: ingest_def Let_def split: sum.splits)

lemma message_tokens_other_shape:
  assumes "map_of m ''text'' = Some v" "v \<notin> range JStr" "v \<notin> range JList"
  shows "message_tokens env m = Inl AttributeError"
  using assms by (cases v) (auto simp: message_tokens_def message_text_def tokenize_and_lemmatize_def)

lemma segment_missing_text:
  assumes "JDict d \<in> set items" "map_of d ''text'' = None"
  shows "isl (mapM_err (segment env) items)"
  using assms by (intro mapM_err_fails [of "JDict d"]) auto

lemma message_tokens_list_fails:
  assumes "map_of m ''text'' = Some (JList items)" "JDict d \<in> set items" "map_of d ''text'' = None"
  shows "isl (message_tokens env m)"
  using segment_missing_text [OF assms(2,3), of env] assms(1)
  by (auto simp: message_tokens_def message_text_def split: sum.splits)

lemma tokenize_str_empty: "tokenize_str env [] = []"
  by (simp add: tokenize_str_def findall_words_def)

lemmas script_defs = run_script_def count_sender_def period_step_def count_message_def
  count_words_def add_words_def new_period_stats_def add_days_def days_per_period_def
  datetime_max_def message_date_def parse_date_def sorted_messages_def is_voice_def
  seconds_per_day_def join_sp_def txt_path_def

lemma tokenize_str_no_content:
  assumes "\<forall>w \<in> set (findall_words env (map (lower_char env) text)).
             w \<in> stopwords env \<or> \<not> list_ex (\<lambda>pos. pos \<in> set (fst (morph_parse env w))) content_pos"
  shows "tokenize_str env text = []"
proof -
  have "(\<forall>w \<in> set ws. w \<in> stopwords env
            \<or> \<not> list_ex (\<lambda>pos. pos \<in> set (fst (morph_parse env w))) content_pos)
        \<Longrightarrow> lemmatize env ws = []" for ws
    by (induction ws) (auto simp: Let_def)
  with assms show ?thesis by (simp add: tokenize_str_def)
qed

lemma py_replace_absent: "a \<notin> set s \<Longrightarrow> py_replace (a # as) new s = s"
  by (induction s) auto

lemma py_replace_skip:
  "a \<notin> set pre \<Longrightarrow> py_replace (a # as) new (pre @ rest) = pre @ py_replace (a # as) new rest"
  by (induction pre) auto

lemma py_replace_hit:
  "py_replace (a # as) new ((a # as) @ rest) = new @ py_replace (a # as) new rest"
  by simp

lemma txt_path_canonical:
  assumes "CHR ''v'' \<notin> set dir" "CHR ''v'' \<notin> set name"
    and "CHR ''.'' \<notin> set dir" "CHR ''.'' \<notin> set name"
  shows "txt_path (dir @ ''voice_messages/'' @ name @ ''.ogg'')
         = dir @ ''voice_messages_txt/'' @ name @ ''.txt''"
proof -
  have v: "CHR ''v'' \<notin> set (''/'' @ name @ ''.ogg'')" using assms(2) by simp
  have "py_replace ''voice_messages'' ''voice_messages_txt'' (dir @ ''voice_messages/'' @ name @ ''.ogg'')
        = dir @ py_replace ''voice_messages'' ''voice_messages_txt''
                  (''voice_messages'' @ (''/'' @ name @ ''.ogg''))"
    using py_replace_skip [OF assms(1)] by simp
  also have "\<dots> = dir @ ''voice_messages_txt'' @ py_replace ''voice_messages'' ''voice_messages_txt''
                  (''/'' @ name @ ''.ogg'')"
    by (simp only: py_replace_hit)
  also have "\<dots> = dir @ ''voice_messages_txt'' @ (''/'' @ name @ ''.ogg'')"
    using py_replace_absent [OF v] by simp
  finally have step1: "py_replace ''voice_messages'' ''voice_messages_txt''
       (dir @ ''voice_messages/'' @ name @ ''.ogg'') = (dir @ ''voice_messages_txt/'' @ name) @ ''.ogg''"
    by simp
  have d: "CHR ''.'' \<notin> set (dir @ ''voice_messages_txt/'' @ name)" using assms(3,4) by simp
  have "py_replace ''.ogg'' ''.txt'' ((dir @ ''voice_messages_txt/'' @ name) @ ''.ogg'')
        = (dir @ ''voice_messages_txt/'' @ name) @ py_replace ''.ogg'' ''.txt'' ''.ogg''"
    using py_replace_skip [OF d] by simp
  also have "\<dots> = (dir @ ''voice_messages_txt/'' @ name) @ ''.txt''" by simp
  finally show ?thesis unfolding txt_path_def step1 by simp
qed

lemma keys_dd_upd_old: "k \<in> fst ` set kvs \<Longrightarrow> map fst (dd_upd k dflt f kvs) = map fst kvs"
  by (induction kvs) force+

lemma keys_dd_upd_new: "k \<notin> fst ` set kvs \<Longrightarrow> map fst (dd_upd k dflt f kvs) = map fst kvs @ [k]"
  by (induction kvs) auto

lemma keys_dd_upd:
  "map fst (dd_upd k dflt f kvs) = (if k \<in> set (map fst kvs) then map fst kvs else map fst kvs @ [k])"
  by (simp add: keys_dd_upd_old keys_dd_upd_new)

lemma map_of_dd_upd:
  "map_of (dd_upd k dflt f kvs)
   = (map_of kvs)(k \<mapsto> f (case map_of kvs k of None \<Rightarrow> dflt | Some v \<Rightarrow> v))"
  by (induction kvs) (auto simp: fun_eq_iff)

lemma Counter_snoc: "Counter (xs @ [x]) = dd_upd x 0 Suc (Counter xs)"
  by (simp add: Counter_def)

lemma set_keys_Counter: "set (map fst (Counter xs)) = set xs"
proof (induction xs rule: rev_induct)
  case Nil
  then show ?case by (simp add: Counter_def)
next
  case (snoc x xs)
  then show ?case unfolding Counter_snoc keys_dd_upd by auto
qed

lemma distinct_keys_Counter: "distinct (map fst (Counter xs))"
proof (induction xs rule: rev_induct)
  case Nil
  then show ?case by (simp add: Counter_def)
next
  case (snoc x xs)
  then show ?case
    unfolding Counter_snoc keys_dd_upd by simp
qed

lemma map_of_Counter:
  "map_of (Counter xs) k = (if k \<in> set xs then Some (count_list xs k) else None)"
proof (induction xs rule: rev_induct)
  case Nil
  then show ?case by (simp add: Counter_def)
next
  case (snoc x xs)
  then show ?case
    unfolding Counter_snoc map_of_dd_upd by (auto simp: count_list_0_iff)
qed

lemma Counter_counts:
  assumes "p \<in> set (Counter xs)"
  shows "snd p = count_list xs (fst p)"
proof -
  from assms have "(fst p, snd p) \<in> set (Counter xs)" by simp
  then have "map_of (Counter xs) (fst p) = Some (snd p)"
    by (simp add: map_of_eq_Some_iff [OF distinct_keys_Counter])
  then show ?thesis by (simp add: map_of_Counter split: if_splits)
qed

lemma first_pos_snoc_old: "k \<in> set xs \<Longrightarrow> first_pos k (xs @ [x]) = first_pos k xs"
  by (induction xs) (auto simp: first_pos_def)

lemma first_pos_less: "k \<in> set xs \<Longrightarrow> first_pos k xs < length xs"
  by (induction xs) (auto simp: first_pos_def)

lemma first_pos_snoc_new: "x \<notin> set xs \<Longrightarrow> first_pos x (xs @ [x]) = length xs"
  by (induction xs) (auto simp: first_pos_def)

lemma Counter_first_occurrence_order:
  "sorted_wrt (\<lambda>a b. first_pos a xs < first_pos b xs) (map fst (Counter xs))"
proof (induction xs rule: rev_induct)
  case Nil
  then show ?case by (simp add: Counter_def)
next
  case (snoc x xs)
  have keys: "set (map fst (Counter xs)) = set xs" by (rule set_keys_Counter)
  have old: "sorted_wrt (\<lambda>a b. first_pos a (xs @ [x]) < first_pos b (xs @ [x])) (map fst (Counter xs))"
  proof (rule sorted_wrt_mono_rel [OF _ snoc])
    fix a b
    assume "a \<in> set (map fst (Counter xs))" "b \<in> set (map fst (Counter xs))"
      and "first_pos a xs < first_pos b xs"
    then show "first_pos a (xs @ [x]) < first_pos b (xs @ [x])"
      unfolding keys by (simp add: first_pos_snoc_old)
  qed
  show ?case
  proof (cases "x \<in> set xs")
    case True
    then have "map fst (Counter (xs @ [x])) = map fst (Counter xs)"
      unfolding Counter_snoc keys_dd_upd keys by simp
    with old show ?thesis by simp
  next
    case False
    then have k: "map fst (Counter (xs @ [x])) = map fst (Counter xs) @ [x]"
      unfolding Counter_snoc keys_dd_upd keys by simp
    have "\<forall>k \<in> set (map fst (Counter xs)). first_pos k (xs @ [x]) < first_pos x (xs @ [x])"
      unfolding keys using False
      by (simp add: first_pos_snoc_old first_pos_snoc_new first_pos_less)
    with old show ?thesis
      unfolding k sorted_wrt_append by simp
  qed
qed

lemma insort_desc_stable:
  fixes pos :: "'a \<Rightarrow> nat"
  assumes "sorted_wrt (\<lambda>p q. snd q < snd p \<or> (snd p = snd q \<and> pos (fst p) < pos (fst q))) ys"
    and "\<forall>y \<in> set ys. pos (fst x) < pos (fst y)"
  shows "sorted_wrt (\<lambda>p q. snd q < snd p \<or> (snd p = snd q \<and> pos (fst p) < pos (fst q)))
           (insort_key (\<lambda>p. - int (snd p)) x ys)"
  using assms
proof (induction ys)
  case Nil
  then show ?case by simp
next
  case (Cons y ys)
  then show ?case by (auto simp: set_insort_key)
qed

lemma sort_desc_stable:
  fixes pos :: "'a \<Rightarrow> nat"
  assumes "sorted_wrt (\<lambda>a b. pos a < pos b) (map fst c)"
  shows "sorted_wrt (\<lambda>p q. snd q < snd p \<or> (snd p = snd q \<and> pos (fst p) < pos (fst q)))
           (sort_key (\<lambda>p. - int (snd p)) c)"
  using assms
proof (induction c)
  case Nil
  then show ?case by simp
next
  case (Cons x c)
  then have "\<forall>y \<in> set (sort_key (\<lambda>p. - int (snd p)) c). pos (fst x) < pos (fst y)"
    by (simp add: sorted_wrt_map)
  with Cons show ?case by (simp add: insort_desc_stable sorted_wrt_map)
qed


lemma length_Counter_le: "length (Counter xs) \<le> length xs"
proof -
  have "length (Counter xs) = length (map fst (Counter xs))" by simp
  also have "\<dots> = card (set (map fst (Counter xs)))"
    by (rule distinct_card [symmetric]) (rule distinct_keys_Counter)
  also have "\<dots> = card (set xs)" by (simp only: set_keys_Counter)
  also have "\<dots> \<le> length xs" by (rule card_length)
  finally show ?thesis .
qed

lemma distinct_keys_sort_key: "distinct (map fst c) \<Longrightarrow> distinct (map fst (sort_key g c))"
proof -
  assume "distinct (map fst c)"
  moreover have "mset (map fst (sort_key g c)) = mset (map fst c)" by simp
  ultimately show ?thesis by (metis mset_eq_imp_distinct_iff)
qed

lemma map_of_upd_stats:
  "map_of (upd_stats d s f dc)
   = (map_of dc)(d \<mapsto> dd_upd s new_stats f (case map_of dc d of None \<Rightarrow> [] | Some ss \<Rightarrow> ss))"
  by (simp add: upd_stats_def map_of_dd_upd)

lemma messages_at_inc:
  "messages_at (upd_stats d s (\<lambda>r. r\<lparr>messages := messages r + 1\<rparr>) dc) d' s'
   = messages_at dc d' s' + (if d' = d \<and> s' = s then 1 else 0)"
  by (simp add: messages_at_def map_of_upd_stats map_of_dd_upd new_stats_def split: option.splits)

lemma messages_at_tokens:
  "messages_at (upd_stats d s (\<lambda>r. r\<lparr>tokens := tokens r @ toks\<rparr>) dc) d' s' = messages_at dc d' s'"
  by (simp add: messages_at_def map_of_upd_stats map_of_dd_upd new_stats_def split: option.splits)

lemma sum_dd_upd:
  assumes "\<And>v. g (f v) = g v + c" "g dflt = (0::nat)"
  shows "sum_list (map (\<lambda>p. g (snd p)) (dd_upd k dflt f kvs)) = sum_list (map (\<lambda>p. g (snd p)) kvs) + c"
  using assms by (induction kvs) auto

lemma bucket_total_inc:
  "bucket_total (upd_stats d s (\<lambda>r. r\<lparr>messages := messages r + 1\<rparr>) dc) d'
   = bucket_total dc d' + (if d' = d then 1 else 0)"
proof -
  have "sum_list (map (\<lambda>p. messages (snd p)) (dd_upd s new_stats (\<lambda>r. r\<lparr>messages := messages r + 1\<rparr>) ss))
        = sum_list (map (\<lambda>p. messages (snd p)) ss) + 1" for ss
    by (rule sum_dd_upd) (simp_all add: new_stats_def)
  then show ?thesis
    by (simp add: bucket_total_def map_of_upd_stats split: option.splits)
qed

lemma bucket_total_tokens:
  "bucket_total (upd_stats d s (\<lambda>r. r\<lparr>tokens := tokens r @ toks\<rparr>) dc) d' = bucket_total dc d'"
proof -
  have "sum_list (map (\<lambda>p. messages (snd p)) (dd_upd s new_stats (\<lambda>r. r\<lparr>tokens := tokens r @ toks\<rparr>) ss))
        = sum_list (map (\<lambda>p. messages (snd p)) ss) + 0" for ss
    by (rule sum_dd_upd) (simp_all add: new_stats_def)
  then show ?thesis
    by (simp add: bucket_total_def map_of_upd_stats split: option.splits)
qed

lemma distinct_keys_dd_upd: "distinct (map fst kvs) \<Longrightarrow> distinct (map fst (dd_upd k dflt f kvs))"
  by (simp add: keys_dd_upd)

lemma list_all_dd_upd:
  assumes "list_all (\<lambda>p. P (snd p)) kvs" "P dflt" "\<And>v. P v \<Longrightarrow> P (f v)"
  shows "list_all (\<lambda>p. P (snd p)) (dd_upd k dflt f kvs)"
  using assms by (induction kvs) auto

lemma one_record_each_upd_stats:
  assumes "one_record_each dc"
  shows "one_record_each (upd_stats d s f dc)"
proof -
  have "list_all (\<lambda>p. distinct (map fst (snd p))) (dd_upd d [] (dd_upd s new_stats f) dc)"
    using assms by (intro list_all_dd_upd) (simp_all add: one_record_each_def distinct_keys_dd_upd)
  with assms show ?thesis
    by (simp add: one_record_each_def upd_stats_def distinct_keys_dd_upd)
qed

lemma ingest_counts:
  assumes "ingest env (dc, vts) m = Inr (dc', vts')"
  shows "\<exists>d s. attribution env m = Some (d, s) \<and> bucket_of env m = Some d
           \<and> (\<forall>d' s'. messages_at dc' d' s' = messages_at dc d' s' + (if d' = d \<and> s' = s then 1 else 0))
           \<and> (\<forall>d'. bucket_total dc' d' = bucket_total dc d' + (if d' = d then 1 else 0))
           \<and> (one_record_each dc \<longrightarrow> one_record_each dc')"
proof -
  from assms obtain t s where t: "message_date env m = Inr t"
    and s: "hash_key (sender_of m) = Inr s"
    by (auto simp: ingest_def split: sum.splits)
  define dc1 where "dc1 = upd_stats (date_of t) s (\<lambda>r. r\<lparr>messages := messages r + 1\<rparr>) dc"
  have "dc' = dc1 \<or> (\<exists>toks. dc' = upd_stats (date_of t) s (\<lambda>r. r\<lparr>tokens := tokens r @ toks\<rparr>) dc1)"
    using assms t s unfolding dc1_def
    by (auto simp: ingest_def Let_def split: sum.splits option.splits if_splits)
  then have "(\<forall>d' s'. messages_at dc' d' s' = messages_at dc1 d' s')
      \<and> (\<forall>d'. bucket_total dc' d' = bucket_total dc1 d')
      \<and> (one_record_each dc1 \<longrightarrow> one_record_each dc')"
    by (auto simp only: messages_at_tokens bucket_total_tokens one_record_each_upd_stats)
  moreover have "messages_at dc1 d' s' = messages_at dc d' s' + (if d' = date_of t \<and> s' = s then 1 else 0)"
    for d' s' unfolding dc1_def by (rule messages_at_inc)
  moreover have "bucket_total dc1 d' = bucket_total dc d' + (if d' = date_of t then 1 else 0)" for d'
    unfolding dc1_def by (rule bucket_total_inc)
  moreover have "one_record_each dc \<longrightarrow> one_record_each dc1"
    unfolding dc1_def by (blast intro: one_record_each_upd_stats)
  moreover have "attribution env m = Some (date_of t, s)" "bucket_of env m = Some (date_of t)"
    using t s by (simp_all add: attribution_def bucket_of_def)
  ultimately show ?thesis by (intro exI [of _ "date_of t"] exI [of _ s]) simp
qed

lemma ingest_all_counts:
  assumes "foldM_err (ingest env) st ms = Inr st'"
  shows "messages_at (fst st') d s
           = messages_at (fst st) d s + length (filter (\<lambda>m. attribution env m = Some (d, s)) ms)
         \<and> bucket_total (fst st') d
           = bucket_total (fst st) d + length (filter (\<lambda>m. bucket_of env m = Some d) ms)
         \<and> (one_record_each (fst st) \<longrightarrow> one_record_each (fst st'))"
  using assms
proof (induction ms arbitrary: st)
  case Nil
  then show ?case by simp
next
  case (Cons m ms)
  from Cons.prems obtain st1 where st1: "ingest env st m = Inr st1"
    and rest: "foldM_err (ingest env) st1 ms = Inr st'"
    by (auto split: sum.splits)
  from st1 have "ingest env (fst st, snd st) m = Inr (fst st1, snd st1)" by simp
  from ingest_counts [OF this] obtain d0 s0 where a: "attribution env m = Some (d0, s0)"
    and b: "bucket_of env m = Some d0"
    and c: "\<forall>d' s'. messages_at (fst st1) d' s'
              = messages_at (fst st) d' s' + (if d' = d0 \<and> s' = s0 then 1 else 0)"
    and t: "\<forall>d'. bucket_total (fst st1) d' = bucket_total (fst st) d' + (if d' = d0 then 1 else 0)"
    and o: "one_record_each (fst st) \<longrightarrow> one_record_each (fst st1)"
    by blast
  from Cons.IH [OF rest] a b c t o show ?case by auto
qed

lemma merge_voice_counts:
  "messages_at (fst (merge_voice env task st)) d s = messages_at (fst st) d s
   \<and> bucket_total (fst (merge_voice env task st)) d = bucket_total (fst st) d
   \<and> (one_record_each (fst st) \<longrightarrow> one_record_each (fst (merge_voice env task st)))"
  by (cases task)
     (simp add: merge_voice_def Let_def messages_at_tokens bucket_total_tokens one_record_each_upd_stats)

lemma merge_all_counts:
  "messages_at (fst (fold (merge_voice env) tasks st)) d s = messages_at (fst st) d s
   \<and> bucket_total (fst (fold (merge_voice env) tasks st)) d = bucket_total (fst st) d
   \<and> (one_record_each (fst st) \<longrightarrow> one_record_each (fst (fold (merge_voice env) tasks st)))"
  by (induction tasks arbitrary: st) (simp_all add: merge_voice_counts)

lemma length_filter_sorted_messages:
  assumes "sorted_messages env msgs = Inr ss"
  shows "length (filter P ss) = length (filter P msgs)"
proof -
  have "mset (filter P ss) = mset (filter P msgs)"
    using mset_sorted_messages [OF assms] by (metis mset_filter)
  then show ?thesis by (metis size_mset)
qed

lemma analyze_chat_counts:
  assumes "analyze_chat env msgs = Inr (dc, u)"
  shows "messages_at dc d s = length (filter (\<lambda>m. attribution env m = Some (d, s)) msgs)"
    and "bucket_total dc d = length (filter (\<lambda>m. bucket_of env m = Some d) msgs)"
    and "one_record_each dc"
proof -
  from assms obtain ss dc0 vts where ss: "sorted_messages env msgs = Inr ss"
    and ing: "foldM_err (ingest env) ([], []) ss = Inr (dc0, vts)"
    and dc: "(dc, u) = fold (merge_voice env) vts (dc0, 0)"
    by (auto simp: analyze_chat_def split: sum.splits prod.splits)
  have e: "messages_at [] d s = 0" "bucket_total [] d = 0" "one_record_each []"
    by (simp_all add: messages_at_def bucket_total_def one_record_each_def)
  from ingest_all_counts [OF ing, of d s] e
  have 1: "messages_at dc0 d s = length (filter (\<lambda>m. attribution env m = Some (d, s)) ss)"
    and 2: "bucket_total dc0 d = length (filter (\<lambda>m. bucket_of env m = Some d) ss)"
    and 3: "one_record_each dc0"
    by simp_all
  from merge_all_counts [of env vts "(dc0, 0)" d s] dc [symmetric]
  have 4: "messages_at dc d s = messages_at dc0 d s" "bucket_total dc d = bucket_total dc0 d"
    "one_record_each dc0 \<longrightarrow> one_record_each dc"
    by simp_all
  show "messages_at dc d s = length (filter (\<lambda>m. attribution env m = Some (d, s)) msgs)"
    using 1 4(1) length_filter_sorted_messages [OF ss] by simp
  show "bucket_total dc d = length (filter (\<lambda>m. bucket_of env m = Some d) msgs)"
    using 2 4(2) length_filter_sorted_messages [OF ss] by simp
  show "one_record_each dc" using 3 4(3) by simp
qed

lemma p_messages_at_inc:
  "p_messages_at (dd_upd k new_period_stats (\<lambda>r. r\<lparr>p_messages := p_messages r + 1\<rparr>) pc) s
   = p_messages_at pc s + (if s = k then 1 else 0)"
  by (simp add: p_messages_at_def map_of_dd_upd new_period_stats_def split: option.splits)

lemma p_messages_at_add_words: "p_messages_at (add_words k n pc) s = p_messages_at pc s"
  by (simp add: p_messages_at_def add_words_def map_of_dd_upd new_period_stats_def split: option.splits)

lemma count_message_no_from: "map_of m ''from'' = None \<Longrightarrow> count_message env st m = Inr st"
  by (simp add: count_message_def)

lemma count_message_counts:
  assumes "count_message env (pc, u) m = Inr (pc', u')"
  shows "p_messages_at pc' s = p_messages_at pc s + (if from_key m = Some s then 1 else 0)"
proof (cases "map_of m ''from''")
  case None
  with assms show ?thesis by (simp add: count_message_def from_key_def)
next
  case (Some v)
  with assms obtain k where k: "hash_key v = Inr k"
    by (auto simp: count_message_def split: sum.splits)
  define pc1 where "pc1 = dd_upd k new_period_stats (\<lambda>r. r\<lparr>p_messages := p_messages r + 1\<rparr>) pc"
  have "pc' = pc1 \<or> (\<exists>n. pc' = add_words k n pc1)"
    using assms Some k unfolding pc1_def
    by (auto simp: count_message_def Let_def
        split: sum.splits option.splits if_splits json.splits fs_entry.splits)
  then have "p_messages_at pc' s = p_messages_at pc1 s"
    by (auto simp only: p_messages_at_add_words)
  also have "\<dots> = p_messages_at pc s + (if s = k then 1 else 0)"
    unfolding pc1_def by (rule p_messages_at_inc)
  finally show ?thesis using Some k by (auto simp: from_key_def)
qed

lemma count_period_counts:
  assumes "foldM_err (count_message env) st period = Inr st'"
  shows "p_messages_at (fst st') s
         = p_messages_at (fst st) s + length (filter (\<lambda>m. from_key m = Some s) period)"
  using assms
proof (induction period arbitrary: st)
  case Nil
  then show ?case by simp
next
  case (Cons m ms)
  from Cons.prems obtain st1 where st1: "count_message env st m = Inr st1"
    and rest: "foldM_err (count_message env) st1 ms = Inr st'"
    by (auto split: sum.splits)
  from st1 have "count_message env (fst st, snd st) m = Inr (fst st1, snd st1)" by simp
  from count_message_counts [OF this, of s] Cons.IH [OF rest] show ?case by simp
qed

lemma period_step_invariant:
  assumes "period_step env st message = Inr st'"
  shows "concat (periods st') @ current_period st' = concat (periods st) @ current_period st @ [message]"
    and "list_all2 (\<lambda>pc period. p_messages_at pc s = length (filter (\<lambda>m. from_key m = Some s) period))
           (period_counts st) (periods st)
         \<Longrightarrow> list_all2 (\<lambda>pc period. p_messages_at pc s = length (filter (\<lambda>m. from_key m = Some s) period))
           (period_counts st') (periods st')"
proof -
  from assms obtain t where t: "message_date env message = Inr t"
    by (auto simp: period_step_def split: sum.splits)
  show "concat (periods st') @ current_period st' = concat (periods st) @ current_period st @ [message]"
    using assms t
    by (cases "t < current_period_end st")
       (auto simp: period_step_def split: sum.splits prod.splits)
  assume inv: "list_all2 (\<lambda>pc period. p_messages_at pc s = length (filter (\<lambda>m. from_key m = Some s) period))
           (period_counts st) (periods st)"
  show "list_all2 (\<lambda>pc period. p_messages_at pc s = length (filter (\<lambda>m. from_key m = Some s) period))
           (period_counts st') (periods st')"
  proof (cases "t < current_period_end st")
    case True
    with assms t inv show ?thesis by (auto simp: period_step_def)
  next
    case False
    with assms t obtain pc u where c: "foldM_err (count_message env) ([], unrecognized_voice_count st)
        (current_period st) = Inr (pc, u)"
      and p: "periods st' = periods st @ [current_period st]"
      and q: "period_counts st' = period_counts st @ [pc]"
      by (auto simp: period_step_def split: sum.splits prod.splits)
    from count_period_counts [OF c, of s]
    have "p_messages_at pc s = length (filter (\<lambda>m. from_key m = Some s) (current_period st))"
      by (simp add: p_messages_at_def)
    with inv show ?thesis unfolding p q by (simp add: list_all2_appendI)
  qed
qed

lemma period_loop_invariant:
  assumes "foldM_err (period_step env) st ms = Inr st'"
  shows "concat (periods st') @ current_period st' = concat (periods st) @ current_period st @ ms
    \<and> (list_all2 (\<lambda>pc period. p_messages_at pc s = length (filter (\<lambda>m. from_key m = Some s) period))
           (period_counts st) (periods st)
       \<longrightarrow> list_all2 (\<lambda>pc period. p_messages_at pc s = length (filter (\<lambda>m. from_key m = Some s) period))
           (period_counts st') (periods st'))"
  using assms
proof (induction ms arbitrary: st)
  case Nil
  then show ?case by simp
next
  case (Cons m ms)
  from Cons.prems obtain st1 where st1: "period_step env st m = Inr st1"
    and rest: "foldM_err (period_step env) st1 ms = Inr st'"
    by (auto split: sum.splits)
  from period_step_invariant(1) [OF st1] period_step_invariant(2) [OF st1, of s] Cons.IH [OF rest]
  show ?case by simp
qed

lemma run_script_periods:
  assumes "run_script env msgs = Inr r"
  shows "\<exists>ss. sorted_messages env msgs = Inr ss
           \<and> concat (periods (final r)) @ current_period (final r) = ss"
    and "list_all2 (\<lambda>pc period. p_messages_at pc s = length (filter (\<lambda>m. from_key m = Some s) period))
           (period_counts (final r)) (periods (final r))"
proof -
  from assms obtain ss e0 st where ss: "sorted_messages env msgs = Inr ss"
    and loop: "foldM_err (period_step env)
         \<lparr>periods = [], period_counts = [], current_period = [], current_period_end = e0,
          unrecognized_voice_count = 0\<rparr> ss = Inr st"
    and r: "final r = st"
    by (auto simp: run_script_def simp del: foldM_err.simps
        split: sum.splits prod.splits list.splits)
  from period_loop_invariant [OF loop, of s] r ss
  show "\<exists>ss. sorted_messages env msgs = Inr ss
           \<and> concat (periods (final r)) @ current_period (final r) = ss"
    and "list_all2 (\<lambda>pc period. p_messages_at pc s = length (filter (\<lambda>m. from_key m = Some s) period))
           (period_counts (final r)) (periods (final r))"
    by simp_all
qed

lemma ingest_all_attributed:
  assumes "foldM_err (ingest env) st ms = Inr st'"
  shows "list_all (\<lambda>m. attribution env m \<noteq> None) ms"
  using assms
proof (induction ms arbitrary: st)
  case Nil
  then show ?case by simp
next
  case (Cons m ms)
  from Cons.prems obtain st1 where st1: "ingest env st m = Inr st1"
    and rest: "foldM_err (ingest env) st1 ms = Inr st'"
    by (auto split: sum.splits)
  from st1 have "ingest env (fst st, snd st) m = Inr (fst st1, snd st1)" by simp
  from ingest_counts [OF this] have "attribution env m \<noteq> None" by auto
  with Cons.IH [OF rest] show ?case by simp
qed

lemma analyze_chat_attributed:
  assumes "analyze_chat env msgs = Inr res"
  shows "list_all (\<lambda>m. attribution env m \<noteq> None) msgs"
proof -
  from assms obtain ss st where ss: "sorted_messages env msgs = Inr ss"
    and ing: "foldM_err (ingest env) ([], []) ss = Inr st"
    by (auto simp: analyze_chat_def split: sum.splits)
  from ingest_all_attributed [OF ing] set_sorted_messages [OF ss]
  show ?thesis by (simp add: list_all_iff)
qed

lemma sorted_messages_single:
  "message_date env m = Inr t \<Longrightarrow> sorted_messages env [m] = Inr [m]"
  by (simp add: sorted_messages_def)

lemma period_step_current:
  assumes "period_step env st m = Inr st'"
  shows "current_period st' \<noteq> []"
  using assms
  by (auto simp: period_step_def split: sum.splits prod.splits if_splits)

lemma period_loop_current:
  assumes "foldM_err (period_step env) st ms = Inr st'" "ms \<noteq> []"
  shows "current_period st' \<noteq> []"
  using assms
proof (induction ms arbitrary: st)
  case Nil
  then show ?case by simp
next
  case (Cons m ms)
  from Cons.prems obtain st1 where st1: "period_step env st m = Inr st1"
    and rest: "foldM_err (period_step env) st1 ms = Inr st'"
    by (auto split: sum.splits)
  show ?case
  proof (cases ms)
    case Nil
    with rest st1 show ?thesis by (simp add: period_step_current)
  next
    case (Cons a as)
    with Cons.IH [OF rest] show ?thesis by simp
  qed
qed

lemma run_script_current:
  assumes "run_script env msgs = Inr r"
  shows "current_period (final r) \<noteq> []"
proof -
  from assms obtain ss e0 st where ss: "sorted_messages env msgs = Inr ss"
    and loop: "foldM_err (period_step env)
         \<lparr>periods = [], period_counts = [], current_period = [], current_period_end = e0,
          unrecognized_voice_count = 0\<rparr> ss = Inr st"
    and r: "final r = st"
    by (auto simp: run_script_def simp del: foldM_err.simps
        split: sum.splits prod.splits list.splits)
  have "ss \<noteq> []"
    using assms ss by (auto simp: run_script_def split: sum.splits prod.splits)
  from period_loop_current [OF loop \<open>ss \<noteq> []\<close>] r show ?thesis by simp
qed

lemma mapM_err_error: "mapM_err f xs = Inl e \<Longrightarrow> \<exists>x \<in> set xs. f x = Inl e"
  by (induction xs) (auto split: sum.splits)

lemma segment_error: "segment env item = Inl e \<Longrightarrow> e = KeyError"
  by (cases item) (auto split: option.splits)

lemma segments_key_error:
  assumes "JDict d \<in> set items" "map_of d ''text'' = None"
  shows "mapM_err (segment env) items = Inl KeyError"
proof -
  from segment_missing_text [OF assms, where env = env] obtain e where e: "mapM_err (segment env) items = Inl e"
    by (cases "mapM_err (segment env) items") auto
  from mapM_err_error [OF e] segment_error have "e = KeyError" by blast
  with e show ?thesis by simp
qed

lemma segments_strings:
  assumes "list_all2 (segment_str env) items strs"
  shows "mapM_err (segment env) items = Inr (map JStr strs)"
  using assms
proof (induction rule: list_all2_induct)
  case Nil
  then show ?case by simp
next
  case (Cons item items s strs)
  from Cons.hyps(1) have "segment env item = Inr (JStr s)"
    by (cases item) (auto simp: segment_str_def)
  with Cons.IH show ?case by simp
qed

lemma the_str_strings: "mapM_err the_str (map JStr strs) = Inr strs"
  by (induction strs) auto

lemma join_sp_rec:
  "join_sp [] = [] \<and> join_sp [x] = x \<and> join_sp (x # y # ys) = x @ CHR '' '' # join_sp (y # ys)"
  by (simp add: join_sp_def)

lemma char_eq_char_of: "(c = char_of (n::nat)) = (take_bit 8 n = of_char c)"
  using char_of_eq_iff [of n c] by auto

lemma map_of_with_unknown: "k \<noteq> ''from'' \<Longrightarrow> map_of (with_unknown m) k = map_of m k"
  by (simp add: with_unknown_def split: option.splits)

lemma sender_of_with_unknown: "sender_of (with_unknown m) = sender_of m"
  by (simp add: sender_of_def with_unknown_def split: option.splits)

lemma message_date_with_unknown: "message_date env (with_unknown m) = message_date env m"
  by (simp add: message_date_def map_of_with_unknown)

lemma ingest_with_unknown: "ingest env st (with_unknown m) = ingest env st m"
  by (simp add: ingest_def message_date_with_unknown sender_of_with_unknown is_voice_def
      message_tokens_def message_text_def map_of_with_unknown
      cong: sum.case_cong option.case_cong if_cong)

lemma ingest_all_with_unknown:
  "foldM_err (ingest env) st (map with_unknown ms) = foldM_err (ingest env) st ms"
  by (induction ms arbitrary: st) (simp_all add: ingest_with_unknown cong: sum.case_cong)

lemma dates_with_unknown:
  "mapM_err (message_date env) (map with_unknown ms) = mapM_err (message_date env) ms"
  by (induction ms) (simp_all add: message_date_with_unknown cong: sum.case_cong)

lemma insort_key_map:
  assumes "\<And>x. k (h x) = k x"
  shows "insort_key k (h x) (map h ys) = map h (insort_key k x ys)"
  by (induction ys) (simp_all add: assms)

lemma sort_key_map:
  assumes "\<And>x. k (h x) = k x"
  shows "sort_key k (map h xs) = map h (sort_key k xs)"
  by (induction xs) (simp_all add: sort_key_simps insort_key_map assms)

lemma sorted_messages_with_unknown:
  "sorted_messages env (map with_unknown msgs)
   = (case sorted_messages env msgs of Inl e \<Rightarrow> Inl e | Inr ss \<Rightarrow> Inr (map with_unknown ss))"
proof (cases "mapM_err (message_date env) msgs")
  case (Inl e)
  then show ?thesis by (simp add: sorted_messages_def dates_with_unknown)
next
  case (Inr ks)
  have z: "zip ks (map with_unknown msgs) = map (apsnd with_unknown) (zip ks msgs)"
    by (simp add: zip_map2 apsnd_def map_prod_def)
  have "sort_key fst (map (apsnd with_unknown) (zip ks msgs))
        = map (apsnd with_unknown) (sort_key fst (zip ks msgs))"
    by (rule sort_key_map) simp
  with Inr z show ?thesis
    by (simp add: sorted_messages_def dates_with_unknown comp_def)
qed

lemma analyze_chat_with_unknown: "analyze_chat env (map with_unknown msgs) = analyze_chat env msgs"
  by (simp add: analyze_chat_def sorted_messages_with_unknown ingest_all_with_unknown
      split: sum.splits)

lemma ingest_no_from_text:
  assumes "map_of m ''from'' = None" "message_date env m = Inr t" "\<not> is_voice m"
    and "message_tokens env m = Inr toks"
  shows "ingest env (dc, vts) m =
    Inr (upd_stats (date_of t) (KStr ''Unknown'') (\<lambda>r. r\<lparr>tokens := tokens r @ toks\<rparr>)
          (upd_stats (date_of t) (KStr ''Unknown'') (\<lambda>r. r\<lparr>messages := messages r + 1\<rparr>) dc),
         vts)"
  using assms by (simp add: ingest_def sender_of_def Let_def)

lemma ingest_no_from_voice:
  assumes "map_of m ''from'' = None" "message_date env m = Inr t" "is_voice m"
    and "map_of m ''file'' = Some f"
  shows "ingest env (dc, vts) m =
    Inr (upd_stats (date_of t) (KStr ''Unknown'') (\<lambda>r. r\<lparr>messages := messages r + 1\<rparr>) dc,
         vts @ [(date_of t, KStr ''Unknown'', f)])"
  using assms by (simp add: ingest_def sender_of_def Let_def)

lemma analyze_no_from:
  "analyze_chat demo_env [msg_no_from, msg_a] = Inr (counts_no_from, 0)"
  by (simp add: msg_no_from_def msg_a_def counts_no_from_def model_defs demo_defs)

section \<open>C3: a date that does not parse\<close>

text \<open>
  C3 says that a message whose date does not parse is left out and counted while the run
  continues. Both programs stop instead: the ValueError of \<open>parse_date\<close> leaves
  \<open>sorted\<close>, and no statistics and no counter are produced.
\<close>

theorem unparsable_date_counterexample:
  "analyze_chat demo_env [msg_a, msg_bad_date] = Inl ValueError
   \<and> run_script demo_env [msg_a, msg_bad_date] = Inl ValueError"
  by (simp add: msg_a_def msg_bad_date_def model_defs demo_defs run_script_def count_sender_def)

text \<open>
  C3 as amended: a batch that holds a message whose date string \<open>strptime\<close> rejects is
  not analysed at all; \<open>analyze_chat\<close> and the period script both end with an exception.
\<close>

theorem unparsable_date_aborts:
  assumes "m \<in> set msgs" "map_of m ''date'' = Some (JStr s)" "strptime env s = None"
  shows "isl (analyze_chat env msgs) \<and> isl (run_script env msgs)"
proof -
  have "isl (sorted_messages env msgs)" using assms by (rule bad_date_sorted)
  then show ?thesis
    by (auto simp: analyze_chat_def run_script_def split: sum.splits)
qed

theorem unparsable_date_aborts_witness:
  "msg_bad_date \<in> set [msg_a, msg_bad_date]
   \<and> map_of msg_bad_date ''date'' = Some (JStr ''01.01.2024 10:00'')
   \<and> strptime demo_env ''01.01.2024 10:00'' = None
   \<and> isl (analyze_chat demo_env [msg_a, msg_bad_date])
   \<and> isl (run_script demo_env [msg_a, msg_bad_date])"
proof -
  have 1: "msg_bad_date \<in> set [msg_a, msg_bad_date]" by simp
  have 2: "map_of msg_bad_date ''date'' = Some (JStr ''01.01.2024 10:00'')"
    by (simp add: msg_bad_date_def)
  have 3: "strptime demo_env ''01.01.2024 10:00'' = None"
    by (simp add: demo_env_def)
  from unparsable_date_aborts [OF 1 2 3] 1 2 3 show ?thesis by simp
qed

section \<open>C10: a transcript without content words\<close>



section \<open>C2: the rolling period boundary\<close>

text \<open>
  C2 says that the period boundary advances in a loop until the timestamp fits. The
  script advances it once per closed period: with messages on day 0, day 100 and day 101
  the message of day 100 is put into period 1, which the script labels with day 30,
  where the cursor of the specification gives period 3.
\<close>

theorem single_step_advance_drifts:
  "run_script demo_env [msg_day0, msg_day100, msg_day101] =
     Inr \<lparr>message_count = [(KStr ''A'', 2), (KStr ''B'', 1)], not_message = 0,
          final = \<lparr>periods = [[msg_day0], [msg_day100]],
                    period_counts = [[(KStr ''A'', \<lparr>p_messages = 1, p_words = 2\<rparr>)],
                                     [(KStr ''A'', \<lparr>p_messages = 1, p_words = 1\<rparr>)]],
                    current_period = [msg_day101],
                    current_period_end = 63839664000 + 90 * 86400,
                    unrecognized_voice_count = 0\<rparr>,
          period_labels = [63839664000, 63839664000 + 30 * 86400]\<rparr>
   \<and> message_date demo_env msg_day0 = Inr 63839664000
   \<and> message_date demo_env msg_day100 = Inr (63839664000 + 100 * 86400)
   \<and> fst (spec_advance (30 * 86400) (63839664000 + 100 * 86400) (0, 63839664000 + 30 * 86400)) = 3"
  by (simp add: msg_day0_def msg_day100_def msg_day101_def script_defs demo_defs)

section \<open>C6: the ranking of tokens\<close>

text \<open>
  C6: for every token sequence and every K the ranking \<open>Counter(tokens).most_common(K)\<close>
  has at most K pairs, each a token with its frequency, no token twice, in descending
  order of frequency with ties in order of first occurrence; it is the first K entries of
  the ranking of all tokens; and for \<open>["a","b","a","b"]\<close> and K = 2 it is
  \<open>[("a",2),("b",2)]\<close>.
\<close>

theorem top_k_ranking:
  "length (top_k K toks) \<le> K
   \<and> sorted_wrt (\<lambda>p q. snd q < snd p
                     \<or> (snd p = snd q \<and> first_pos (fst p) toks < first_pos (fst q) toks))
        (top_k K toks)
   \<and> map snd (top_k K toks) = map (count_list toks) (map fst (top_k K toks))
   \<and> distinct (map fst (top_k K toks))
   \<and> set (map fst (top_k (length toks) toks)) = set toks
   \<and> top_k K toks = take K (top_k (length toks) toks)
   \<and> top_k 2 [''a'', ''b'', ''a'', ''b''] = [(''a'', 2), (''b'', 2)]"
proof (intro conjI)
  let ?s = "sort_key (\<lambda>p. - int (snd p)) (Counter toks)"
  have len: "length ?s \<le> length toks"
    using length_Counter_le [of toks] by simp
  show "length (top_k K toks) \<le> K"
    by (simp add: top_k_def most_common_def)
  show "sorted_wrt (\<lambda>p q. snd q < snd p
                     \<or> (snd p = snd q \<and> first_pos (fst p) toks < first_pos (fst q) toks))
        (top_k K toks)"
    unfolding top_k_def most_common_def
    by (intro sorted_wrt_take sort_desc_stable Counter_first_occurrence_order)
  have "p \<in> set (top_k K toks) \<Longrightarrow> snd p = count_list toks (fst p)" for p
  proof -
    assume "p \<in> set (top_k K toks)"
    then have "p \<in> set ?s" unfolding top_k_def most_common_def by (rule in_set_takeD)
    then have "p \<in> set (Counter toks)" by simp
    then show ?thesis by (rule Counter_counts)
  qed
  then show "map snd (top_k K toks) = map (count_list toks) (map fst (top_k K toks))"
    by simp
  have "distinct (map fst ?s)"
    by (rule distinct_keys_sort_key) (rule distinct_keys_Counter)
  then have "distinct (take K (map fst ?s))" by (rule distinct_take)
  then show "distinct (map fst (top_k K toks))"
    unfolding top_k_def most_common_def by (simp only: take_map)
  have "top_k (length toks) toks = ?s"
    unfolding top_k_def most_common_def using len by simp
  then show "set (map fst (top_k (length toks) toks)) = set toks"
    using set_keys_Counter [of toks] by simp
  show "top_k K toks = take K (top_k (length toks) toks)"
    unfolding \<open>top_k (length toks) toks = ?s\<close> by (simp add: top_k_def most_common_def)
  show "top_k 2 [''a'', ''b'', ''a'', ''b''] = [(''a'', 2), (''b'', 2)]"
    by (simp add: top_k_def most_common_def Counter_def numeral_2_eq_2)
qed

section \<open>C1: word count and token list\<close>

text \<open>
  C1 says that \<open>word_count\<close> equals the length of \<open>tokens\<close> in every record. In
  \<open>analyze_chat\<close> the field \<open>words\<close> is set to 0 when a record is created and no
  statement writes it again, while \<open>tokens\<close> grows: whatever the environment, after
  a single text message the record of its sender holds all its tokens and \<open>words = 0\<close>.
\<close>

theorem words_not_maintained:
  assumes "message_date env m = Inr t" "hash_key (sender_of m) = Inr s" "\<not> is_voice m"
    and "message_tokens env m = Inr toks"
  shows "analyze_chat env [m] =
           Inr ([(date_of t, [(s, \<lparr>messages = 1, words = 0, tokens = toks\<rparr>)])], 0)"
  using assms
  by (simp add: analyze_chat_def sorted_messages_single ingest_def upd_stats_def new_stats_def)

theorem words_not_maintained_witness:
  "message_date demo_env msg_privet = Inr 63839700000
   \<and> hash_key (sender_of msg_privet) = Inr (KStr ''A'') \<and> \<not> is_voice msg_privet
   \<and> message_tokens demo_env msg_privet = Inr [privet, mir]
   \<and> analyze_chat demo_env [msg_privet] =
       Inr ([(date_of 63839700000,
              [(KStr ''A'', \<lparr>messages = 1, words = 0, tokens = [privet, mir]\<rparr>)])], 0)
   \<and> words \<lparr>messages = 1, words = 0, tokens = [privet, mir]\<rparr>
       \<noteq> length (tokens \<lparr>messages = 1, words = 0, tokens = [privet, mir]\<rparr>)"
proof -
  have 1: "message_date demo_env msg_privet = Inr 63839700000"
    by (simp add: msg_privet_def message_date_def parse_date_def demo_env_def)
  have 2: "hash_key (sender_of msg_privet) = Inr (KStr ''A'')"
    by (simp add: msg_privet_def sender_of_def)
  have 3: "\<not> is_voice msg_privet"
    by (simp add: msg_privet_def is_voice_def)
  have 4: "message_tokens demo_env msg_privet = Inr [privet, mir]"
    by (simp add: msg_privet_def message_tokens_def message_text_def tokenize_and_lemmatize_def
        tokenize_str_def findall_words_def content_pos_def demo_defs)
  from words_not_maintained [OF 1 2 3 4] 1 2 3 4 show ?thesis by simp
qed

section \<open>C4: every message in one bucket\<close>

text \<open>
  C4 says that no timestamp-valid message is absent from all bucket statistics, the
  messages of the final, partial period included. The period script closes a period only
  when a later message arrives: whenever it runs to its end, the open period still holds
  messages (the last of the sorted batch among them), the closed periods and the open one
  are the sorted batch cut into pieces, and counts exist for the closed periods only.
\<close>

theorem final_period_never_counted:
  assumes "run_script env msgs = Inr r"
  shows "current_period (final r) \<noteq> []
    \<and> (\<exists>ss. sorted_messages env msgs = Inr ss
          \<and> concat (periods (final r)) @ current_period (final r) = ss)
    \<and> list_all2 (\<lambda>pc period. p_messages_at pc s
                      = length (filter (\<lambda>m. from_key m = Some s) period))
         (period_counts (final r)) (periods (final r))"
  using run_script_current [OF assms] run_script_periods(1) [OF assms]
    run_script_periods(2) [OF assms, of s]
  by blast

theorem final_period_never_counted_witness:
  "run_script demo_env [msg_a] =
     Inr \<lparr>message_count = [(KStr ''A'', 1)], not_message = 0,
          final = \<lparr>periods = [], period_counts = [], current_period = [msg_a],
                    current_period_end = 63839700000 + 30 * 86400,
                    unrecognized_voice_count = 0\<rparr>,
          period_labels = []\<rparr>
   \<and> current_period \<lparr>periods = [], period_counts = [], current_period = [msg_a],
                    current_period_end = 63839700000 + 30 * 86400,
                    unrecognized_voice_count = 0\<rparr> \<noteq> []
   \<and> (\<exists>ss. sorted_messages demo_env [msg_a] = Inr ss \<and> concat [] @ [msg_a] = ss)
   \<and> list_all2 (\<lambda>pc period. p_messages_at pc (KStr ''A'')
                     = length (filter (\<lambda>m. from_key m = Some (KStr ''A'')) period)) [] []"
proof -
  have run: "run_script demo_env [msg_a] =
     Inr \<lparr>message_count = [(KStr ''A'', 1)], not_message = 0,
          final = \<lparr>periods = [], period_counts = [], current_period = [msg_a],
                    current_period_end = 63839700000 + 30 * 86400,
                    unrecognized_voice_count = 0\<rparr>,
          period_labels = []\<rparr>"
    by (simp add: msg_a_def script_defs demo_defs)
  from final_period_never_counted [OF run, of "KStr ''A''"] run show ?thesis by simp
qed

section \<open>C8: the path of a transcript\<close>

text \<open>
  C8 says that the transcript path is the reference with the directory segment
  \<open>voice_messages\<close> replaced and the trailing extension \<open>.ogg\<close> replaced by \<open>.txt\<close>.
  \<open>str.replace\<close> replaces every \<open>.ogg\<close>: for the voice file \<open>a.ogg.ogg\<close> the analyzer
  looks for \<open>a.txt.txt\<close>, while the converter of the repository writes the transcript
  as \<open>a.ogg.txt\<close>, the path of the specification; the transcript is there and holds two
  content words, and the analyzer returns no tokens.
\<close>

theorem transcript_path_mismatch:
  "txt_path ''voice_messages/a.ogg.ogg'' = ''voice_messages_txt/a.txt.txt''
   \<and> transcript_name ''a.ogg.ogg'' = Some ''a.ogg.txt''
   \<and> spec_txt_path ''voice_messages/a.ogg.ogg'' = ''voice_messages_txt/a.ogg.txt''
   \<and> isfile_read demo_env ''voice_messages_txt/a.ogg.txt'' = TextFile Privet_mir
   \<and> tokenize_str demo_env Privet_mir = [privet, mir]
   \<and> process_voice_message demo_env (JStr ''voice_messages/a.ogg.ogg'') = []"
proof (intro conjI)
  show "txt_path ''voice_messages/a.ogg.ogg'' = ''voice_messages_txt/a.txt.txt''"
    by (simp add: txt_path_def)
  show "transcript_name ''a.ogg.ogg'' = Some ''a.ogg.txt''"
    by (simp add: transcript_name_def wav_file_name_def text_file_name_def splitext_root_def
        suffix_def)
  show "spec_txt_path ''voice_messages/a.ogg.ogg'' = ''voice_messages_txt/a.ogg.txt''"
    by (simp add: spec_txt_path_def join_slash_def suffix_def)
  show "isfile_read demo_env ''voice_messages_txt/a.ogg.txt'' = TextFile Privet_mir"
    by (simp add: demo_env_def)
  show "tokenize_str demo_env Privet_mir = [privet, mir]"
    by (simp add: tokenize_str_def findall_words_def content_pos_def demo_defs)
  show "process_voice_message demo_env (JStr ''voice_messages/a.ogg.ogg'') = []"
    by (simp add: process_voice_message_def txt_path_def demo_env_def)
qed

section \<open>C9: shapes of the text field\<close>

text \<open>
  C9 says that a \<open>text\<close> of any other shape than a string or a list of strings and
  objects with a \<open>text\<close> field counts as empty text and never raises. In
  \<open>analyze_chat\<close> a number as \<open>text\<close> reaches \<open>text.lower()\<close> and the
  AttributeError ends the analysis.
\<close>

theorem text_shape_counterexample:
  "analyze_chat demo_env [msg_number_text] = Inl AttributeError"
  by (simp add: msg_number_text_def model_defs demo_defs)

text \<open>
  C9 as amended: in \<open>analyze_chat\<close> a message without a \<open>text\<close> field contributes
  no tokens; a string is tokenized as it is; a list is tokenized after the strings of
  its elements are joined with single spaces, where a string element gives itself, an
  object the string under its \<open>text\<close>, and any other element its \<open>str()\<close>; an
  object without a \<open>text\<close> entry in the list raises KeyError, and a \<open>text\<close> of any
  other shape (null, boolean, number, object) raises AttributeError, either of which
  ends the analysis.
\<close>

theorem text_shapes:
  "(map_of m1 ''text'' = None \<longrightarrow> message_tokens env m1 = Inr [])
   \<and> (map_of m2 ''text'' = Some (JStr s) \<longrightarrow> message_tokens env m2 = Inr (tokenize_str env s))
   \<and> (map_of m3 ''text'' = Some (JList items) \<and> list_all2 (segment_str env) items strs
      \<longrightarrow> message_tokens env m3 = Inr (tokenize_str env (join_sp strs)))
   \<and> join_sp [] = [] \<and> join_sp [x] = x \<and> join_sp (x # y # ys) = x @ CHR '' '' # join_sp (y # ys)
   \<and> (m4 \<in> set msgs4 \<and> \<not> is_voice m4 \<and> map_of m4 ''text'' = Some (JList items4)
        \<and> JDict d \<in> set items4 \<and> map_of d ''text'' = None
      \<longrightarrow> message_tokens env m4 = Inl KeyError \<and> isl (analyze_chat env msgs4))
   \<and> (m5 \<in> set msgs5 \<and> \<not> is_voice m5 \<and> map_of m5 ''text'' = Some v
        \<and> v \<notin> range JStr \<and> v \<notin> range JList
      \<longrightarrow> message_tokens env m5 = Inl AttributeError \<and> isl (analyze_chat env msgs5))"
proof (intro conjI impI)
  assume "map_of m1 ''text'' = None"
  then show "message_tokens env m1 = Inr []"
    by (simp add: message_tokens_def message_text_def tokenize_and_lemmatize_def tokenize_str_empty)
next
  assume "map_of m2 ''text'' = Some (JStr s)"
  then show "message_tokens env m2 = Inr (tokenize_str env s)"
    by (simp add: message_tokens_def message_text_def tokenize_and_lemmatize_def)
next
  assume a: "map_of m3 ''text'' = Some (JList items) \<and> list_all2 (segment_str env) items strs"
  then have "mapM_err (segment env) items = Inr (map JStr strs)"
    by (blast intro: segments_strings)
  with a show "message_tokens env m3 = Inr (tokenize_str env (join_sp strs))"
    by (simp add: message_tokens_def message_text_def tokenize_and_lemmatize_def the_str_strings)
next
  show "join_sp [] = []" "join_sp [x] = x" "join_sp (x # y # ys) = x @ CHR '' '' # join_sp (y # ys)"
    using join_sp_rec [of x y ys] by simp_all
next
  assume a: "m4 \<in> set msgs4 \<and> \<not> is_voice m4 \<and> map_of m4 ''text'' = Some (JList items4)
        \<and> JDict d \<in> set items4 \<and> map_of d ''text'' = None"
  then have "mapM_err (segment env) items4 = Inl KeyError"
    by (blast intro: segments_key_error)
  with a show k: "message_tokens env m4 = Inl KeyError"
    by (simp add: message_tokens_def message_text_def)
  then have "isl (message_tokens env m4)" by simp
  with a have "\<And>st. isl (ingest env st m4)" by (blast intro: ingest_text_fails)
  with a show "isl (analyze_chat env msgs4)" by (blast intro: failing_message_aborts)
next
  assume a: "m5 \<in> set msgs5 \<and> \<not> is_voice m5 \<and> map_of m5 ''text'' = Some v
        \<and> v \<notin> range JStr \<and> v \<notin> range JList"
  then show t: "message_tokens env m5 = Inl AttributeError"
    by (blast intro: message_tokens_other_shape)
  then have "isl (message_tokens env m5)" by simp
  with a have "\<And>st. isl (ingest env st m5)" by (blast intro: ingest_text_fails)
  with a show "isl (analyze_chat env msgs5)" by (blast intro: failing_message_aborts)
qed

theorem text_shapes_witness:
  "map_of msg_no_text ''text'' = None \<and> message_tokens demo_env msg_no_text = Inr []
   \<and> map_of msg_a ''text'' = Some (JStr ''Hello world'')
   \<and> message_tokens demo_env msg_a = Inr (tokenize_str demo_env ''Hello world'')
   \<and> map_of msg_mixed_list ''text''
       = Some (JList [JStr ''Hello'', JDict [(''type'', JStr ''bold''), (''text'', JStr ''world'')],
                      JInt 5, JNull])
   \<and> list_all2 (segment_str demo_env)
        [JStr ''Hello'', JDict [(''type'', JStr ''bold''), (''text'', JStr ''world'')], JInt 5, JNull]
        [''Hello'', ''world'', ''5'', ''None'']
   \<and> message_tokens demo_env msg_mixed_list
       = Inr (tokenize_str demo_env (join_sp [''Hello'', ''world'', ''5'', ''None'']))
   \<and> join_sp [''Hello'', ''world'', ''5'', ''None''] = ''Hello world 5 None''
   \<and> join_sp [''Hello'', ''world''] = ''Hello'' @ CHR '' '' # join_sp [''world'']
   \<and> msg_list_text \<in> set [msg_list_text] \<and> \<not> is_voice msg_list_text
   \<and> map_of msg_list_text ''text'' = Some (JList [JStr ''Hello'', JDict [(''type'', JStr ''bold'')]])
   \<and> JDict [(''type'', JStr ''bold'')] \<in> set [JStr ''Hello'', JDict [(''type'', JStr ''bold'')]]
   \<and> map_of [(''type'', JStr ''bold'')] ''text'' = None
   \<and> message_tokens demo_env msg_list_text = Inl KeyError
   \<and> isl (analyze_chat demo_env [msg_list_text])
   \<and> msg_number_text \<in> set [msg_number_text] \<and> \<not> is_voice msg_number_text
   \<and> map_of msg_number_text ''text'' = Some (JInt 5) \<and> JInt 5 \<notin> range JStr \<and> JInt 5 \<notin> range JList
   \<and> message_tokens demo_env msg_number_text = Inl AttributeError
   \<and> isl (analyze_chat demo_env [msg_number_text])"
proof -
  have h1: "map_of msg_no_text ''text'' = None" by (simp add: msg_no_text_def)
  have h2: "map_of msg_a ''text'' = Some (JStr ''Hello world'')" by (simp add: msg_a_def)
  have h3: "map_of msg_mixed_list ''text''
       = Some (JList [JStr ''Hello'', JDict [(''type'', JStr ''bold''), (''text'', JStr ''world'')],
                      JInt 5, JNull])
    \<and> list_all2 (segment_str demo_env)
        [JStr ''Hello'', JDict [(''type'', JStr ''bold''), (''text'', JStr ''world'')], JInt 5, JNull]
        [''Hello'', ''world'', ''5'', ''None'']"
    by (simp add: msg_mixed_list_def segment_str_def demo_env_def int_repr_def char_of_eq_iff
        char_eq_char_of)
  have h4: "msg_list_text \<in> set [msg_list_text] \<and> \<not> is_voice msg_list_text
    \<and> map_of msg_list_text ''text'' = Some (JList [JStr ''Hello'', JDict [(''type'', JStr ''bold'')]])
    \<and> JDict [(''type'', JStr ''bold'')] \<in> set [JStr ''Hello'', JDict [(''type'', JStr ''bold'')]]
    \<and> map_of [(''type'', JStr ''bold'')] ''text'' = None"
    by (simp add: msg_list_text_def is_voice_def)
  have h5: "msg_number_text \<in> set [msg_number_text] \<and> \<not> is_voice msg_number_text
    \<and> map_of msg_number_text ''text'' = Some (JInt 5) \<and> JInt 5 \<notin> range JStr \<and> JInt 5 \<notin> range JList"
    by (auto simp: msg_number_text_def is_voice_def)
  have h6: "join_sp [''Hello'', ''world'', ''5'', ''None''] = ''Hello world 5 None''"
    by (simp add: join_sp_def)
  note t = text_shapes [of msg_no_text demo_env msg_a "''Hello world''" msg_mixed_list
      "[JStr ''Hello'', JDict [(''type'', JStr ''bold''), (''text'', JStr ''world'')], JInt 5, JNull]"
      "[''Hello'', ''world'', ''5'', ''None'']" "''Hello''" "''world''" "[]"
      msg_list_text "[msg_list_text]"
      "[JStr ''Hello'', JDict [(''type'', JStr ''bold'')]]" "[(''type'', JStr ''bold'')]"
      msg_number_text "[msg_number_text]" "JInt 5"]
  from t h1 h2 h3 h4 h5 h6 show ?thesis by blast
qed

section \<open>C7: a message without a sender\<close>

text \<open>
  C7 says that a message without \<open>from\<close> is counted under the sender Unknown. The period
  script does not count it in any period: the counts of the period that holds
  \<open>msg_no_from\<close> have no entry at all, and the message shows only in \<open>not_message\<close>.
\<close>

theorem missing_from_counterexample:
  "run_script demo_env [msg_no_from, msg_day100] =
     Inr \<lparr>message_count = [(KStr ''A'', 1)], not_message = 1,
          final = \<lparr>periods = [[msg_no_from]], period_counts = [[]],
                    current_period = [msg_day100],
                    current_period_end = 63839664000 + 60 * 86400,
                    unrecognized_voice_count = 0\<rparr>,
          period_labels = [63839664000]\<rparr>"
  by (simp add: msg_no_from_def msg_day100_def script_defs demo_defs)

text \<open>
  C7 as amended: \<open>analyze_chat\<close> treats a message without \<open>from\<close> exactly as the same
  message with \<open>from\<close> set to \<open>"Unknown"\<close>, so that the missing field never ends the
  run: the loop body files the message under the sender Unknown in the bucket of its
  date, adds one to the messages of that record, and goes on with its tokens or its voice
  task; in a batch that is analysed, the record of Unknown in that bucket and the total
  of the bucket both count the message. The period script leaves such a message out of
  the counts of its period and adds it to \<open>not_message\<close>.
\<close>

theorem missing_from_is_unknown:
  "analyze_chat env (map with_unknown msgs) = analyze_chat env msgs
   \<and> (map_of m ''from'' = None \<and> message_date env m = Inr t \<and> \<not> is_voice m
        \<and> message_tokens env m = Inr toks \<longrightarrow>
      ingest env (dc, vts) m =
        Inr (upd_stats (date_of t) (KStr ''Unknown'') (\<lambda>r. r\<lparr>tokens := tokens r @ toks\<rparr>)
              (upd_stats (date_of t) (KStr ''Unknown'') (\<lambda>r. r\<lparr>messages := messages r + 1\<rparr>) dc),
             vts))
   \<and> (map_of mv ''from'' = None \<and> message_date env mv = Inr tv \<and> is_voice mv
        \<and> map_of mv ''file'' = Some f \<longrightarrow>
      ingest env (dcv, vtsv) mv =
        Inr (upd_stats (date_of tv) (KStr ''Unknown'') (\<lambda>r. r\<lparr>messages := messages r + 1\<rparr>) dcv,
             vtsv @ [(date_of tv, KStr ''Unknown'', f)]))
   \<and> (analyze_chat env batch = Inr (counts, u) \<and> mb \<in> set batch \<and> map_of mb ''from'' = None
        \<and> bucket_of env mb = Some d \<longrightarrow>
      attribution env mb = Some (d, KStr ''Unknown'')
      \<and> messages_at counts d (KStr ''Unknown'')
          = length (filter (\<lambda>x. attribution env x = Some (d, KStr ''Unknown'')) batch)
      \<and> 0 < messages_at counts d (KStr ''Unknown'')
      \<and> bucket_total counts d = length (filter (\<lambda>x. bucket_of env x = Some d) batch)
      \<and> 0 < bucket_total counts d)
   \<and> (map_of ms ''from'' = None \<longrightarrow>
      count_message env st ms = Inr st \<and> count_sender cs ms = Inr (fst cs, snd cs + 1))"
proof (intro conjI impI)
  show "analyze_chat env (map with_unknown msgs) = analyze_chat env msgs"
    by (rule analyze_chat_with_unknown)
next
  assume "map_of m ''from'' = None \<and> message_date env m = Inr t \<and> \<not> is_voice m
        \<and> message_tokens env m = Inr toks"
  then show "ingest env (dc, vts) m =
        Inr (upd_stats (date_of t) (KStr ''Unknown'') (\<lambda>r. r\<lparr>tokens := tokens r @ toks\<rparr>)
              (upd_stats (date_of t) (KStr ''Unknown'') (\<lambda>r. r\<lparr>messages := messages r + 1\<rparr>) dc),
             vts)"
    by (blast intro: ingest_no_from_text)
next
  assume "map_of mv ''from'' = None \<and> message_date env mv = Inr tv \<and> is_voice mv
        \<and> map_of mv ''file'' = Some f"
  then show "ingest env (dcv, vtsv) mv =
        Inr (upd_stats (date_of tv) (KStr ''Unknown'') (\<lambda>r. r\<lparr>messages := messages r + 1\<rparr>) dcv,
             vtsv @ [(date_of tv, KStr ''Unknown'', f)])"
    by (blast intro: ingest_no_from_voice)
next
  assume a: "analyze_chat env batch = Inr (counts, u) \<and> mb \<in> set batch \<and> map_of mb ''from'' = None
        \<and> bucket_of env mb = Some d"
  then show att: "attribution env mb = Some (d, KStr ''Unknown'')"
    by (auto simp: attribution_def bucket_of_def sender_of_def split: sum.splits)
  from a show c: "messages_at counts d (KStr ''Unknown'')
          = length (filter (\<lambda>x. attribution env x = Some (d, KStr ''Unknown'')) batch)"
    by (blast intro: analyze_chat_counts(1))
  from a show t: "bucket_total counts d = length (filter (\<lambda>x. bucket_of env x = Some d) batch)"
    by (blast intro: analyze_chat_counts(2))
  from a att have "filter (\<lambda>x. attribution env x = Some (d, KStr ''Unknown'')) batch \<noteq> []"
    by (auto simp: filter_empty_conv)
  with c show "0 < messages_at counts d (KStr ''Unknown'')" by simp
  from a have "filter (\<lambda>x. bucket_of env x = Some d) batch \<noteq> []"
    by (auto simp: filter_empty_conv)
  with t show "0 < bucket_total counts d" by simp
next
  assume "map_of ms ''from'' = None"
  then show "count_message env st ms = Inr st" by (rule count_message_no_from)
next
  assume "map_of ms ''from'' = None"
  then show "count_sender cs ms = Inr (fst cs, snd cs + 1)" by (simp add: count_sender_def)
qed

theorem missing_from_is_unknown_witness:
  "analyze_chat demo_env (map with_unknown [msg_no_from, msg_a])
     = analyze_chat demo_env [msg_no_from, msg_a]
   \<and> map_of msg_no_from ''from'' = None \<and> message_date demo_env msg_no_from = Inr 63839664000
   \<and> \<not> is_voice msg_no_from \<and> message_tokens demo_env msg_no_from = Inr [privet, mir]
   \<and> ingest demo_env ([], []) msg_no_from =
       Inr (upd_stats (date_of 63839664000) (KStr ''Unknown'')
              (\<lambda>r. r\<lparr>tokens := tokens r @ [privet, mir]\<rparr>)
              (upd_stats (date_of 63839664000) (KStr ''Unknown'')
                 (\<lambda>r. r\<lparr>messages := messages r + 1\<rparr>) []), [])
   \<and> map_of msg_voice_no_from ''from'' = None
   \<and> message_date demo_env msg_voice_no_from = Inr 63839782800 \<and> is_voice msg_voice_no_from
   \<and> map_of msg_voice_no_from ''file'' = Some (JStr ''voice_messages/1.ogg'')
   \<and> ingest demo_env ([], []) msg_voice_no_from =
       Inr (upd_stats (date_of 63839782800) (KStr ''Unknown'')
              (\<lambda>r. r\<lparr>messages := messages r + 1\<rparr>) [],
            [] @ [(date_of 63839782800, KStr ''Unknown'', JStr ''voice_messages/1.ogg'')])
   \<and> analyze_chat demo_env [msg_no_from, msg_a] = Inr (counts_no_from, 0)
   \<and> msg_no_from \<in> set [msg_no_from, msg_a]
   \<and> bucket_of demo_env msg_no_from = Some 738885
   \<and> attribution demo_env msg_no_from = Some (738885, KStr ''Unknown'')
   \<and> messages_at counts_no_from 738885 (KStr ''Unknown'')
       = length (filter (\<lambda>x. attribution demo_env x = Some (738885, KStr ''Unknown''))
                   [msg_no_from, msg_a])
   \<and> 0 < messages_at counts_no_from 738885 (KStr ''Unknown'')
   \<and> bucket_total counts_no_from 738885
       = length (filter (\<lambda>x. bucket_of demo_env x = Some 738885) [msg_no_from, msg_a])
   \<and> 0 < bucket_total counts_no_from 738885
   \<and> count_message demo_env ([], 0) msg_no_from = Inr ([], 0)
   \<and> count_sender ([], 0) msg_no_from = Inr (fst ([], 0), snd ([], 0 :: nat) + 1)"
proof -
  have 1: "msg_no_from \<in> set [msg_no_from, msg_a]" by simp
  have 2: "map_of msg_no_from ''from'' = None" by (simp add: msg_no_from_def)
  have 3: "bucket_of demo_env msg_no_from = Some 738885"
    by (simp add: bucket_of_def msg_no_from_def message_date_def parse_date_def demo_env_def
        date_of_def seconds_per_day_def)
  have 4: "message_date demo_env msg_no_from = Inr 63839664000"
    by (simp add: msg_no_from_def message_date_def parse_date_def demo_env_def)
  have 5: "\<not> is_voice msg_no_from" by (simp add: msg_no_from_def is_voice_def)
  have 6: "message_tokens demo_env msg_no_from = Inr [privet, mir]"
    by (simp add: msg_no_from_def message_tokens_def message_text_def tokenize_and_lemmatize_def
        tokenize_str_def findall_words_def content_pos_def demo_defs)
  have 7: "map_of msg_voice_no_from ''from'' = None
    \<and> message_date demo_env msg_voice_no_from = Inr 63839782800 \<and> is_voice msg_voice_no_from
    \<and> map_of msg_voice_no_from ''file'' = Some (JStr ''voice_messages/1.ogg'')"
    by (simp add: msg_voice_no_from_def message_date_def parse_date_def demo_env_def is_voice_def)
  from missing_from_is_unknown [of demo_env "[msg_no_from, msg_a]" msg_no_from 63839664000
      "[privet, mir]" "[]" "[]" msg_voice_no_from 63839782800 "JStr ''voice_messages/1.ogg''"
      "[]" "[]" "[msg_no_from, msg_a]" counts_no_from 0 msg_no_from 738885 msg_no_from
      "([], 0)" "([], 0)"]
    analyze_no_from 1 2 3 4 5 6 7
  show ?thesis by simp
qed

end
